theory Spec2Isabelle
  imports Complex_Main
begin

section \<open>The stores of \<^verbatim>\<open>bot.js\<close>\<close>

text \<open>
  The bot keeps two SQLite tables. A row of \<^verbatim>\<open>guild_config\<close> is keyed by the guild id,
  a row of \<^verbatim>\<open>users\<close> by the pair of guild id and user id; the key columns are the keys
  of the maps below and the other columns are the fields of the rows. Identifiers
  (Discord snowflakes) are strings, \<^verbatim>\<open>INTEGER\<close> columns and JavaScript numbers are
  integers (values stay far below \<open>2^53\<close>, where JavaScript numbers are exact), a
  nullable \<^verbatim>\<open>TEXT\<close> column is an optional string.
\<close>

type_synonym snowflake = string

record guild_config_row =
  welcome_channel_id :: "snowflake option"
  welcome_message :: "string option"
  autorole_id :: "snowflake option"
  leveling_enabled :: int
  log_channel_id :: "snowflake option"

record users_row =
  xp :: int
  level :: int
  last_xp_ts :: int

record db =
  guild_config :: "snowflake \<rightharpoonup> guild_config_row"
  users :: "snowflake \<times> snowflake \<rightharpoonup> users_row"

text \<open>The prepared statements, as values: the log of a handler run lists them in order.\<close>

datatype stmt =
    GetCfg snowflake
  | UpsertCfg snowflake guild_config_row
  | GetUser snowflake snowflake
  | UpsertUser snowflake snowflake int int int
  | SetLastXP int snowflake snowflake

fun is_write :: "stmt \<Rightarrow> bool" where
  "is_write (GetCfg _) = False"
| "is_write (UpsertCfg _ _) = True"
| "is_write (GetUser _ _) = False"
| "is_write (UpsertUser _ _ _ _ _) = True"
| "is_write (SetLastXP _ _ _) = True"

text \<open>
  What each statement does to the tables. \<^verbatim>\<open>upsertCfg\<close> inserts the row or, on conflict,
  overwrites all five columns: a full replace. \<^verbatim>\<open>upsertUser\<close> inserts the row with the
  given \<^verbatim>\<open>last_xp_ts\<close> or, on conflict, overwrites only \<^verbatim>\<open>xp\<close> and \<^verbatim>\<open>level\<close>.
  \<^verbatim>\<open>setLastXP\<close> is an \<^verbatim>\<open>UPDATE\<close>: it changes nothing when the row is absent.
\<close>

definition sql_getCfg :: "db \<Rightarrow> snowflake \<Rightarrow> guild_config_row option" where
  "sql_getCfg d g = guild_config d g"

definition sql_upsertCfg :: "snowflake \<Rightarrow> guild_config_row \<Rightarrow> db \<Rightarrow> db" where
  "sql_upsertCfg g row d = d\<lparr>guild_config := (guild_config d)(g \<mapsto> row)\<rparr>"

definition sql_getUser :: "db \<Rightarrow> snowflake \<Rightarrow> snowflake \<Rightarrow> users_row option" where
  "sql_getUser d g u = users d (g, u)"

definition sql_upsertUser :: "snowflake \<Rightarrow> snowflake \<Rightarrow> int \<Rightarrow> int \<Rightarrow> int \<Rightarrow> db \<Rightarrow> db" where
  "sql_upsertUser g u x l ts d =
     (case users d (g, u) of
        None \<Rightarrow> d\<lparr>users := (users d)((g, u) \<mapsto> \<lparr>xp = x, level = l, last_xp_ts = ts\<rparr>)\<rparr>
      | Some r \<Rightarrow> d\<lparr>users := (users d)((g, u) \<mapsto> r\<lparr>xp := x, level := l\<rparr>)\<rparr>)"

definition sql_setLastXP :: "int \<Rightarrow> snowflake \<Rightarrow> snowflake \<Rightarrow> db \<Rightarrow> db" where
  "sql_setLastXP ts g u d =
     (case users d (g, u) of
        None \<Rightarrow> d
      | Some r \<Rightarrow> d\<lparr>users := (users d)((g, u) \<mapsto> r\<lparr>last_xp_ts := ts\<rparr>)\<rparr>)"

fun exec_stmt :: "stmt \<Rightarrow> db \<Rightarrow> db" where
  "exec_stmt (GetCfg g) d = d"
| "exec_stmt (UpsertCfg g row) d = sql_upsertCfg g row d"
| "exec_stmt (GetUser g u) d = d"
| "exec_stmt (UpsertUser g u x l ts) d = sql_upsertUser g u x l ts d"
| "exec_stmt (SetLastXP ts g u) d = sql_setLastXP ts g u d"

section \<open>The gateway: outbound actions\<close>

text \<open>
  The text of an outbound message is kept symbolic: which template it is and the
  values that fill it. Rendering the template into a string is not modelled.
\<close>

datatype content =
    InviteWarning snowflake
  | InviteLog string snowflake
  | LevelUpNotice snowflake int
  | WelcomeText string snowflake string
  | JoinLog string
  | WelcomeSet snowflake string
  | AutoroleSet snowflake
  | LevelingSet bool
  | LogChannelSet snowflake
  | RolesUpdated
  | SomethingWentWrong

datatype action =
    MessageDelete snowflake
  | ChannelSend snowflake content
  | RolesAdd snowflake "snowflake list"
  | RolesRemove snowflake "snowflake list"
  | MembersFetch snowflake
  | Reply content

text \<open>
  The state a handler run threads through: the tables, the statements run so far, the
  actions issued so far, and the rejected actions that no handler caught. An action
  called with \<^verbatim>\<open>.catch(() => {})\<close> swallows its rejection; an action called without
  one, and not awaited inside a \<^verbatim>\<open>try\<close>, leaves an unhandled rejection behind when
  the gateway rejects it. Which actions the gateway rejects is a parameter
  \<open>rejects\<close> of every handler.
\<close>

record world =
  store :: db
  stmts :: "stmt list"
  issued :: "action list"
  unhandled :: "action list"

definition run_stmt :: "stmt \<Rightarrow> world \<Rightarrow> world" where
  "run_stmt s w = w\<lparr>store := exec_stmt s (store w), stmts := stmts w @ [s]\<rparr>"

definition run_stmts :: "stmt list \<Rightarrow> world \<Rightarrow> world" where
  "run_stmts ss w = fold run_stmt ss w"

definition issue_caught :: "action \<Rightarrow> world \<Rightarrow> world" where
  "issue_caught a w = w\<lparr>issued := issued w @ [a]\<rparr>"

definition issue_uncaught :: "(action \<Rightarrow> bool) \<Rightarrow> action \<Rightarrow> world \<Rightarrow> world" where
  "issue_uncaught rejects a w =
     w\<lparr>issued := issued w @ [a],
       unhandled := unhandled w @ (if rejects a then [a] else [])\<rparr>"

definition writes :: "world \<Rightarrow> stmt list" where
  "writes w = filter is_write (stmts w)"

definition fresh :: "db \<Rightarrow> world" where
  "fresh d = \<lparr>store = d, stmts = [], issued = [], unhandled = []\<rparr>"

section \<open>Level math\<close>

definition xpForNext :: "int \<Rightarrow> int" where
  "xpForNext lvl = 5 * lvl * lvl + 50 * lvl + 100"

text \<open>
  The \<^verbatim>\<open>while (newXP >= next)\<close> loop of the message handler. The source keeps
  \<^verbatim>\<open>next\<close> equal to \<^verbatim>\<open>xpForNext(level)\<close> at every test of the condition (it is set so
  before the loop and at the end of each iteration), so the model recomputes it.
\<close>

function levelUp :: "int \<Rightarrow> int \<Rightarrow> bool \<Rightarrow> int \<times> int \<times> bool" where
  "levelUp newXP lvl leveledUp =
     (if newXP \<ge> xpForNext lvl
      then levelUp (newXP - xpForNext lvl) (lvl + 1) True
      else (newXP, lvl, leveledUp))"
  by pat_completeness auto
termination
proof (relation "measures [\<lambda>(x, l, b). nat (- l), \<lambda>(x, l, b). nat x]", goal_cases)
  case 1
  show ?case by simp
next
  case (2 newXP lvl leveledUp)
  show ?case
  proof (cases "0 \<le> lvl")
    case True
    then have "0 \<le> 5 * lvl * lvl" "0 \<le> 50 * lvl" by simp_all
    then have "100 \<le> xpForNext lvl" unfolding xpForNext_def by linarith
    with True 2 show ?thesis by auto
  next
    case False
    then show ?thesis by auto
  qed
qed

declare levelUp.simps [simp del]

text \<open>
  \<^verbatim>\<open>15 + Math.floor(Math.random() * 11)\<close>. \<^verbatim>\<open>Math.random()\<close> returns a double in
  \<open>[0, 1)\<close>: a pair \<open>(m, e)\<close> stands for the double \<open>m / 2 ^ e\<close>, with a significand
  \<open>m\<close> below \<open>2 ^ 53\<close> and an exponent down to that of the smallest subnormal. The
  product with 11 is the double nearest to the exact product \<open>11 * m / 2 ^ e\<close>, ties to
  the even significand: an exact numerator below \<open>2 ^ 53\<close> is kept, a longer one loses
  the bits beyond its leading 53 (\<open>excess_bits\<close> counts them) by \<open>round_even\<close>.
  \<^verbatim>\<open>Math.floor\<close> and the addition of 15 are exact.
\<close>

function excess_bits :: "nat \<Rightarrow> nat" where
  "excess_bits n = (if n < 2 ^ 53 then 0 else Suc (excess_bits (n div 2)))"
  by pat_completeness auto
termination
  by (relation "measure id") auto

declare excess_bits.simps [simp del]

definition round_even :: "nat \<Rightarrow> nat \<Rightarrow> nat" where
  "round_even n k =
     (let q = n div 2 ^ k; r = n mod 2 ^ k
      in (if 2 * r > 2 ^ k \<or> (2 * r = 2 ^ k \<and> odd q) then q + 1 else q) * 2 ^ k)"

definition is_random :: "nat \<times> nat \<Rightarrow> bool" where
  "is_random r = (case r of (m, e) \<Rightarrow> m < 2 ^ 53 \<and> e \<le> 1074 \<and> m < 2 ^ e)"

definition value_of :: "nat \<times> nat \<Rightarrow> real" where
  "value_of r = (case r of (m, e) \<Rightarrow> real m / 2 ^ e)"

definition times_11 :: "nat \<times> nat \<Rightarrow> nat \<times> nat" where
  "times_11 r = (case r of (m, e) \<Rightarrow> (round_even (m * 11) (excess_bits (m * 11)), e))"

definition gain_of :: "nat \<times> nat \<Rightarrow> int" where
  "gain_of random = (case times_11 random of (n, e) \<Rightarrow> 15 + int (n div 2 ^ e))"

section \<open>Events\<close>

text \<open>
  What the handlers read of a guild, a member and a message. \<open>channels_cache\<close> maps
  a channel id to the answer of the channel's \<^verbatim>\<open>isTextBased()\<close>, \<open>roles_cache\<close> a
  role id to the role's \<^verbatim>\<open>editable\<close>; \<open>can_ManageMessages\<close> is
  \<^verbatim>\<open>member.permissions.has(PermissionFlagsBits.ManageMessages)\<close>. A message in a
  guild is taken to carry its member, and the member a numeric \<^verbatim>\<open>joinedTimestamp\<close>.
  Failures of the store itself (a statement that throws) are not modelled.
\<close>

record guild =
  guild_id :: snowflake
  guild_name :: string
  systemChannelId :: "snowflake option"
  channels_cache :: "snowflake \<rightharpoonup> bool"
  roles_cache :: "snowflake \<rightharpoonup> bool"

record member =
  member_id :: snowflake
  user_tag :: string
  joinedTimestamp :: int
  can_ManageMessages :: bool

record message =
  message_id :: snowflake
  message_guild :: "guild option"
  author_id :: snowflake
  author_bot :: bool
  message_content :: string
  channel_id :: snowflake
  message_member :: member

text \<open>
  JavaScript truthiness of a nullable string: \<^verbatim>\<open>x || null\<close> is \<^verbatim>\<open>null\<close> for
  \<^verbatim>\<open>null\<close>, \<^verbatim>\<open>undefined\<close> and the empty string.
\<close>

definition or_null :: "string option \<Rightarrow> string option" where
  "or_null x = (case x of None \<Rightarrow> None | Some s \<Rightarrow> if s = [] then None else Some s)"

text \<open>\<^verbatim>\<open>id ? guild.channels.cache.get(id) : null\<close>, keeping the id with the answer.\<close>

definition channel_if_set :: "guild \<Rightarrow> snowflake option \<Rightarrow> (snowflake \<times> bool) option" where
  "channel_if_set g x =
     (case or_null x of
        None \<Rightarrow> None
      | Some cid \<Rightarrow> (case channels_cache g cid of None \<Rightarrow> None | Some tb \<Rightarrow> Some (cid, tb)))"

section \<open>The invite pattern\<close>

text \<open>
  \<^verbatim>\<open>/(discord\.gg\/|discord\.com\/invite\/)/i.test(content)\<close>: the two alternatives are
  literal strings, tried at every position of the text, and a character matches a
  pattern character when both have the same upper-case form. For the ASCII characters
  of the two literals only the ASCII letters have another case.
\<close>

definition canonicalize :: "char \<Rightarrow> char" where
  "canonicalize c =
     (case map_of (zip ''abcdefghijklmnopqrstuvwxyz'' ''ABCDEFGHIJKLMNOPQRSTUVWXYZ'') c of
        None \<Rightarrow> c
      | Some u \<Rightarrow> u)"

fun match_here :: "string \<Rightarrow> string \<Rightarrow> bool" where
  "match_here [] s = True"
| "match_here (p # ps) [] = False"
| "match_here (p # ps) (c # cs) = (canonicalize c = canonicalize p \<and> match_here ps cs)"

fun regex_test :: "string list \<Rightarrow> string \<Rightarrow> bool" where
  "regex_test alts [] = list_ex (\<lambda>p. match_here p []) alts"
| "regex_test alts (c # cs) = (list_ex (\<lambda>p. match_here p (c # cs)) alts \<or> regex_test alts cs)"

definition isInvite :: "string \<Rightarrow> bool" where
  "isInvite text = regex_test [''discord.gg/'', ''discord.com/invite/''] text"

definition sevenDays :: int where
  "sevenDays = 7 * 24 * 60 * 60 * 1000"

definition cooldownMs :: int where
  "cooldownMs = 60 * 1000"

section \<open>The \<^verbatim>\<open>messageCreate\<close> handler\<close>

text \<open>
  The condition under which the handler takes the automod branch (lines 368 to 373):
  the text, the member's \<^verbatim>\<open>joinedTimestamp\<close>, the reading of \<^verbatim>\<open>Date.now()\<close> and the
  permission answer.
\<close>

definition automod_blocks :: "string \<Rightarrow> int \<Rightarrow> int \<Rightarrow> bool \<Rightarrow> bool" where
  "automod_blocks text joined now bypass =
     (isInvite text \<and> (let joinedAgoMs = now - joined in joinedAgoMs < sevenDays \<and> \<not> bypass))"

text \<open>The automod branch: delete, warn, then the audit line when a log channel is set.\<close>

definition automod_actions :: "(action \<Rightarrow> bool) \<Rightarrow> guild \<Rightarrow> message \<Rightarrow> world \<Rightarrow> world" where
  "automod_actions rejects g m w0 =
     (let mem = message_member m;
          w1 = issue_caught (MessageDelete (message_id m)) w0;
          w2 = issue_caught (ChannelSend (channel_id m) (InviteWarning (member_id mem))) w1;
          cfg = sql_getCfg (store w2) (guild_id g);
          w3 = run_stmt (GetCfg (guild_id g)) w2;
          log = channel_if_set g (case cfg of None \<Rightarrow> None | Some c \<Rightarrow> log_channel_id c)
      in case log of
           Some (lid, True) \<Rightarrow>
             issue_uncaught rejects (ChannelSend lid (InviteLog (user_tag mem) (channel_id m))) w3
         | _ \<Rightarrow> w3)"

text \<open>
  The leveling part (lines 384 to 410). \<open>user_or_default\<close> is
  \<^verbatim>\<open>getUser.get(guild, author) || { xp: 0, level: 0, last_xp_ts: 0 }\<close>;
  \<^verbatim>\<open>rec.xp || 0\<close> and \<^verbatim>\<open>rec.level || 0\<close> are the column values themselves, the
  columns being \<^verbatim>\<open>NOT NULL\<close> integers.
\<close>

definition user_or_default :: "db \<Rightarrow> snowflake \<Rightarrow> snowflake \<Rightarrow> users_row" where
  "user_or_default d g u =
     (case sql_getUser d g u of
        Some r \<Rightarrow> r
      | None \<Rightarrow> \<lparr>xp = 0, level = 0, last_xp_ts = 0\<rparr>)"

definition leveling :: "nat \<times> nat \<Rightarrow> int \<Rightarrow> guild \<Rightarrow> message \<Rightarrow> world \<Rightarrow> world" where
  "leveling random now g m w0 =
     (let cfg = sql_getCfg (store w0) (guild_id g);
          w1 = run_stmt (GetCfg (guild_id g)) w0
      in case cfg of
           None \<Rightarrow> w1
         | Some c \<Rightarrow>
             if leveling_enabled c \<noteq> 1 then w1
             else
               let rec = user_or_default (store w1) (guild_id g) (author_id m);
                   w2 = run_stmt (GetUser (guild_id g) (author_id m)) w1
               in if now - last_xp_ts rec < cooldownMs then w2
                  else
                    let gain = gain_of random;
                        (newXP, lvl, leveledUp) = levelUp (xp rec + gain) (level rec) False;
                        w3 = run_stmt (UpsertUser (guild_id g) (author_id m) newXP lvl (last_xp_ts rec)) w2;
                        w4 = run_stmt (SetLastXP now (guild_id g) (author_id m)) w3
                    in if leveledUp
                       then issue_caught (ChannelSend (channel_id m) (LevelUpNotice (author_id m) lvl)) w4
                       else w4)"

text \<open>
  The handler. It reads the clock twice, once in the automod branch and once for
  leveling: \<open>nowA\<close> is the first reading, \<open>nowL\<close> the second.
\<close>

definition messageCreate ::
  "(action \<Rightarrow> bool) \<Rightarrow> nat \<times> nat \<Rightarrow> int \<Rightarrow> int \<Rightarrow> message \<Rightarrow> world \<Rightarrow> world" where
  "messageCreate rejects random nowA nowL m w =
     (case message_guild m of
        None \<Rightarrow> w
      | Some g \<Rightarrow>
          if author_bot m then w
          else if automod_blocks (message_content m) (joinedTimestamp (message_member m)) nowA
                    (can_ManageMessages (message_member m))
          then automod_actions rejects g m w
          else leveling random nowL g m w)"

section \<open>The \<^verbatim>\<open>guildMemberAdd\<close> handler\<close>

text \<open>
  The autorole is added with \<^verbatim>\<open>.catch(() => {})\<close>, the welcome message is sent with
  \<^verbatim>\<open>.catch(() => {})\<close>, the audit line is sent with no handler.
\<close>

definition guildMemberAdd :: "(action \<Rightarrow> bool) \<Rightarrow> guild \<Rightarrow> member \<Rightarrow> world \<Rightarrow> world" where
  "guildMemberAdd rejects g mem w0 =
     (let cfg = sql_getCfg (store w0) (guild_id g);
          w1 = run_stmt (GetCfg (guild_id g)) w0;
          log = channel_if_set g (case cfg of None \<Rightarrow> None | Some c \<Rightarrow> log_channel_id c);
          w2 = (case or_null (case cfg of None \<Rightarrow> None | Some c \<Rightarrow> autorole_id c) of
                  None \<Rightarrow> w1
                | Some rid \<Rightarrow>
                    (case roles_cache g rid of
                       Some True \<Rightarrow> issue_caught (RolesAdd (member_id mem) [rid]) w1
                     | _ \<Rightarrow> w1));
          channelId = (case or_null (case cfg of None \<Rightarrow> None | Some c \<Rightarrow> welcome_channel_id c) of
                         Some cid \<Rightarrow> Some cid
                       | None \<Rightarrow> systemChannelId g);
          channel = channel_if_set g channelId;
          msgT = (case or_null (case cfg of None \<Rightarrow> None | Some c \<Rightarrow> welcome_message c) of
                    Some t \<Rightarrow> t
                  | None \<Rightarrow> ''Welcome {user} to {server}!'');
          w3 = (case channel of
                  Some (cid, True) \<Rightarrow>
                    issue_caught (ChannelSend cid (WelcomeText msgT (member_id mem) (guild_name g))) w2
                | _ \<Rightarrow> w2)
      in case log of
           Some (lid, True) \<Rightarrow> issue_uncaught rejects (ChannelSend lid (JoinLog (user_tag mem))) w3
         | _ \<Rightarrow> w3)"

section \<open>The configuration commands\<close>

text \<open>
  Each command builds a whole row: the fields it sets from its options, every other
  field from the stored row (\<^verbatim>\<open>getCfg.get(guildId)?.field || null\<close>, and
  \<^verbatim>\<open>?? 1\<close> for \<^verbatim>\<open>leveling_enabled\<close>), read once per field in the order of the object
  literal, and writes it with \<^verbatim>\<open>upsertCfg\<close>; then it replies. The reply is awaited in
  the command function, whose promise the dispatcher returns without awaiting it.
\<close>

definition prior :: "world \<Rightarrow> snowflake \<Rightarrow> (guild_config_row \<Rightarrow> string option) \<Rightarrow> string option" where
  "prior w g field = or_null (case sql_getCfg (store w) g of None \<Rightarrow> None | Some c \<Rightarrow> field c)"

definition prior_leveling :: "world \<Rightarrow> snowflake \<Rightarrow> int" where
  "prior_leveling w g = (case sql_getCfg (store w) g of None \<Rightarrow> 1 | Some c \<Rightarrow> leveling_enabled c)"

definition handleSetWelcome ::
  "(action \<Rightarrow> bool) \<Rightarrow> snowflake \<Rightarrow> snowflake \<Rightarrow> string \<Rightarrow> world \<Rightarrow> world" where
  "handleSetWelcome rejects guildId channel msg w =
     (let row = \<lparr>welcome_channel_id = Some channel,
                 welcome_message = Some msg,
                 autorole_id = prior w guildId autorole_id,
                 leveling_enabled = prior_leveling w guildId,
                 log_channel_id = prior w guildId log_channel_id\<rparr>;
          w1 = run_stmts [GetCfg guildId, GetCfg guildId, GetCfg guildId, UpsertCfg guildId row] w
      in issue_uncaught rejects (Reply (WelcomeSet channel msg)) w1)"

definition handleSetAutorole ::
  "(action \<Rightarrow> bool) \<Rightarrow> snowflake \<Rightarrow> snowflake \<Rightarrow> world \<Rightarrow> world" where
  "handleSetAutorole rejects guildId role w =
     (let row = \<lparr>welcome_channel_id = prior w guildId welcome_channel_id,
                 welcome_message = prior w guildId welcome_message,
                 autorole_id = Some role,
                 leveling_enabled = prior_leveling w guildId,
                 log_channel_id = prior w guildId log_channel_id\<rparr>;
          w1 = run_stmts [GetCfg guildId, GetCfg guildId, GetCfg guildId, GetCfg guildId,
                          UpsertCfg guildId row] w
      in issue_uncaught rejects (Reply (AutoroleSet role)) w1)"

definition handleToggleLeveling ::
  "(action \<Rightarrow> bool) \<Rightarrow> snowflake \<Rightarrow> bool \<Rightarrow> world \<Rightarrow> world" where
  "handleToggleLeveling rejects guildId enabled w =
     (let row = \<lparr>welcome_channel_id = prior w guildId welcome_channel_id,
                 welcome_message = prior w guildId welcome_message,
                 autorole_id = prior w guildId autorole_id,
                 leveling_enabled = (if enabled then 1 else 0),
                 log_channel_id = prior w guildId log_channel_id\<rparr>;
          w1 = run_stmts [GetCfg guildId, GetCfg guildId, GetCfg guildId, GetCfg guildId,
                          UpsertCfg guildId row] w
      in issue_uncaught rejects (Reply (LevelingSet enabled)) w1)"

definition handleSetLog ::
  "(action \<Rightarrow> bool) \<Rightarrow> snowflake \<Rightarrow> snowflake \<Rightarrow> world \<Rightarrow> world" where
  "handleSetLog rejects guildId channel w =
     (let row = \<lparr>welcome_channel_id = prior w guildId welcome_channel_id,
                 welcome_message = prior w guildId welcome_message,
                 autorole_id = prior w guildId autorole_id,
                 leveling_enabled = prior_leveling w guildId,
                 log_channel_id = Some channel\<rparr>;
          w1 = run_stmts [GetCfg guildId, GetCfg guildId, GetCfg guildId, GetCfg guildId,
                          UpsertCfg guildId row] w
      in issue_uncaught rejects (Reply (LogChannelSet channel)) w1)"

text \<open>The four commands as one update type, dispatched as the command name is.\<close>

datatype config_command =
    SetWelcome snowflake string
  | SetAutorole snowflake
  | ToggleLeveling bool
  | SetLog snowflake

fun handleCommand :: "(action \<Rightarrow> bool) \<Rightarrow> snowflake \<Rightarrow> config_command \<Rightarrow> world \<Rightarrow> world" where
  "handleCommand rejects g (SetWelcome channel msg) w = handleSetWelcome rejects g channel msg w"
| "handleCommand rejects g (SetAutorole role) w = handleSetAutorole rejects g role w"
| "handleCommand rejects g (ToggleLeveling enabled) w = handleToggleLeveling rejects g enabled w"
| "handleCommand rejects g (SetLog channel) w = handleSetLog rejects g channel w"

section \<open>The role menu\<close>

text \<open>
  The select-menu branch of \<^verbatim>\<open>interactionCreate\<close>. \<open>held\<close> is the list of role ids
  the member holds when fetched; the result pairs the roles held afterwards with the
  world. Every action of the branch is awaited inside the \<^verbatim>\<open>try\<close>: a rejection
  skips the rest and runs the \<^verbatim>\<open>catch\<close> block, which replies with the failure notice
  and swallows a rejection of that reply. The gateway is taken at its contract: an
  accepted \<^verbatim>\<open>roles.remove\<close> takes the given roles from the member, an accepted
  \<^verbatim>\<open>roles.add\<close> gives the given roles to the member, a rejected one changes nothing.
\<close>

record select_menu =
  customId :: string
  selected_values :: "snowflake list"
  component_options :: "snowflake list"
  user_id :: snowflake
  menu_guild :: guild

fun startsWith :: "string \<Rightarrow> string \<Rightarrow> bool" where
  "startsWith s [] = True"
| "startsWith [] (p # ps) = False"
| "startsWith (c # cs) (p # ps) = (c = p \<and> startsWith cs ps)"

definition on_error :: "world \<Rightarrow> world" where
  "on_error w = issue_caught (Reply SomethingWentWrong) w"

definition roleMenuSelect ::
  "(action \<Rightarrow> bool) \<Rightarrow> select_menu \<Rightarrow> snowflake list \<Rightarrow> world \<Rightarrow> snowflake list \<times> world" where
  "roleMenuSelect rejects i held w0 =
     (if \<not> startsWith (customId i) ''role_menu:'' then (held, w0)
      else
        let selected = selected_values i;
            roleIds = component_options i;
            fetch = MembersFetch (user_id i);
            w1 = issue_caught fetch w0
        in if rejects fetch then (held, on_error w1)
           else
             let manageable = filter (\<lambda>rid. roles_cache (menu_guild i) rid = Some True) roleIds;
                 toRemove = filter (\<lambda>r. r \<in> set manageable) held;
                 remove = RolesRemove (user_id i) toRemove;
                 w2 = issue_caught remove w1
             in if rejects remove then (held, on_error w2)
                else
                  let held1 = filter (\<lambda>r. r \<notin> set toRemove) held;
                      add = RolesAdd (user_id i) selected;
                      w3 = issue_caught add w2
                  in if rejects add then (held1, on_error w3)
                     else
                       let held2 = held1 @ filter (\<lambda>r. r \<notin> set held1) selected;
                           reply = Reply RolesUpdated;
                           w4 = issue_caught reply w3
                       in if rejects reply then (held2, on_error w4) else (held2, w4))"

section \<open>Concrete inputs\<close>

text \<open>
  A guild with a text log channel, a manageable role \<open>A\<close> and an unmanageable role
  \<open>B\<close>; a member and a plain message of theirs; the empty tables, and tables that hold
  a configuration row for the guild.
\<close>

definition g0 :: guild where
  "g0 = \<lparr>guild_id = ''g1'', guild_name = ''Guild'', systemChannelId = None,
          channels_cache = [''log'' \<mapsto> True], roles_cache = [''A'' \<mapsto> True, ''B'' \<mapsto> False]\<rparr>"

definition mem0 :: member where
  "mem0 = \<lparr>member_id = ''u1'', user_tag = ''user#0001'', joinedTimestamp = 0, can_ManageMessages = False\<rparr>"

definition m0 :: message where
  "m0 = \<lparr>message_id = ''m1'', message_guild = Some g0, author_id = ''u1'', author_bot = False,
          message_content = ''hello'', channel_id = ''c1'', message_member = mem0\<rparr>"

definition cfg0 :: guild_config_row where
  "cfg0 = \<lparr>welcome_channel_id = None, welcome_message = None, autorole_id = None,
            leveling_enabled = 1, log_channel_id = Some ''log''\<rparr>"

definition d_empty :: db where
  "d_empty = \<lparr>guild_config = Map.empty, users = Map.empty\<rparr>"

definition d_cfg :: db where
  "d_cfg = \<lparr>guild_config = [''g1'' \<mapsto> cfg0], users = Map.empty\<rparr>"

definition d_user :: db where
  "d_user = \<lparr>guild_config = [''g1'' \<mapsto> cfg0],
             users = [(''g1'', ''u1'') \<mapsto> \<lparr>xp = 90, level = 0, last_xp_ts = 0\<rparr>]\<rparr>"

definition g_abc :: guild where
  "g_abc = g0\<lparr>channels_cache := [''log'' \<mapsto> True, ''general'' \<mapsto> True],
              roles_cache := [''A'' \<mapsto> True, ''B'' \<mapsto> True, ''C'' \<mapsto> True]\<rparr>"

definition menu_AB :: select_menu where
  "menu_AB = \<lparr>customId = ''role_menu:1700000000000'', selected_values = [''B''],
               component_options = [''A'', ''B''], user_id = ''u1'', menu_guild = g0\<rparr>"

definition menu_ABC :: select_menu where
  "menu_ABC = \<lparr>customId = ''role_menu:1700000000000'', selected_values = [''B'', ''C''],
                component_options = [''A'', ''B'', ''C''], user_id = ''u1'', menu_guild = g_abc\<rparr>"

definition cfg_full :: guild_config_row where
  "cfg_full = \<lparr>welcome_channel_id = Some ''general'', welcome_message = None,
                autorole_id = Some ''A'', leveling_enabled = 1, log_channel_id = Some ''log''\<rparr>"

definition d_full :: db where
  "d_full = \<lparr>guild_config = [''g1'' \<mapsto> cfg_full], users = Map.empty\<rparr>"

definition m_invite :: message where
  "m_invite = m0\<lparr>message_content := ''join Discord.GG/abc''\<rparr>"

text \<open>
  Five messages of the member, one per minute from 60000 ms on, all with the same
  number from \<^verbatim>\<open>Math.random()\<close>, in the guild whose row enables leveling; and the
  first four of them.
\<close>

definition five_messages :: "nat \<times> nat \<Rightarrow> world" where
  "five_messages random =
     fold (\<lambda>t. messageCreate (\<lambda>a. False) random t t m0)
       [60000, 120000, 180000, 240000, 300000] (fresh d_cfg)"

definition four_messages :: "nat \<times> nat \<Rightarrow> world" where
  "four_messages random =
     fold (\<lambda>t. messageCreate (\<lambda>a. False) random t t m0)
       [60000, 120000, 180000, 240000] (fresh d_cfg)"

text \<open>
  For the configuration commands: whether two commands set the same fields, whether a
  row holds the values a command sets, whether it holds them as a later command re-reads
  them (\<^verbatim>\<open>|| null\<close>: an empty string becomes \<^verbatim>\<open>NULL\<close>), and whether the identifiers
  and the text a command carries are non-empty (a snowflake always is).
\<close>

fun same_field :: "config_command \<Rightarrow> config_command \<Rightarrow> bool" where
  "same_field (SetWelcome _ _) (SetWelcome _ _) = True"
| "same_field (SetAutorole _) (SetAutorole _) = True"
| "same_field (ToggleLeveling _) (ToggleLeveling _) = True"
| "same_field (SetLog _) (SetLog _) = True"
| "same_field _ _ = False"

fun command_holds :: "config_command \<Rightarrow> guild_config_row \<Rightarrow> bool" where
  "command_holds (SetWelcome channel msg) row =
     (welcome_channel_id row = Some channel \<and> welcome_message row = Some msg)"
| "command_holds (SetAutorole role) row = (autorole_id row = Some role)"
| "command_holds (ToggleLeveling enabled) row = (leveling_enabled row = (if enabled then 1 else 0))"
| "command_holds (SetLog channel) row = (log_channel_id row = Some channel)"

fun command_kept :: "config_command \<Rightarrow> guild_config_row \<Rightarrow> bool" where
  "command_kept (SetWelcome channel msg) row =
     (welcome_channel_id row = or_null (Some channel) \<and> welcome_message row = or_null (Some msg))"
| "command_kept (SetAutorole role) row = (autorole_id row = or_null (Some role))"
| "command_kept (ToggleLeveling enabled) row = (leveling_enabled row = (if enabled then 1 else 0))"
| "command_kept (SetLog channel) row = (log_channel_id row = or_null (Some channel))"

fun nonempty_args :: "config_command \<Rightarrow> bool" where
  "nonempty_args (SetWelcome channel msg) = (channel \<noteq> [] \<and> msg \<noteq> [])"
| "nonempty_args (SetAutorole role) = (role \<noteq> [])"
| "nonempty_args (ToggleLeveling enabled) = True"
| "nonempty_args (SetLog channel) = (channel \<noteq> [])"

text \<open>The invariant of a progression row.\<close>

definition xp_invariant :: "users_row \<Rightarrow> bool" where
  "xp_invariant row = (0 \<le> xp row \<and> xp row < xpForNext (level row))"

section \<open>Level-up loop and gain\<close>

lemma levelUp_bounds:
  "0 \<le> x \<Longrightarrow> levelUp x l b = (x', l', b') \<Longrightarrow> 0 \<le> x' \<and> x' < xpForNext l'"
proof (induction x l b rule: levelUp.induct)
  case (1 newXP lvl leveledUp)
  show ?case
  proof (cases "newXP \<ge> xpForNext lvl")
    case True
    with "1.prems" have "levelUp (newXP - xpForNext lvl) (lvl + 1) True = (x', l', b')"
      by (simp add: levelUp.simps[of newXP])
    moreover from True have "0 \<le> newXP - xpForNext lvl" by simp
    ultimately show ?thesis using "1.IH"[OF True] by blast
  next
    case False
    with "1.prems" show ?thesis by (simp add: levelUp.simps[of newXP])
  qed
qed

text \<open>How many bits the product loses, and what rounding can add.\<close>

lemma excess_bits_lt: "n < 2 ^ (53 + excess_bits n)"
proof (induction n rule: excess_bits.induct)
  case (1 n)
  show ?case
  proof (cases "n < 2 ^ 53")
    case True
    then show ?thesis by (simp add: excess_bits.simps[of n])
  next
    case False
    with 1 have "n div 2 < 2 ^ (53 + excess_bits (n div 2))" by simp
    then have "n < 2 * 2 ^ (53 + excess_bits (n div 2))" by linarith
    then have "n < 2 ^ (53 + Suc (excess_bits (n div 2)))" by (simp only: add_Suc_right power_Suc)
    with False show ?thesis by (simp only: excess_bits.simps[of n] if_False)
  qed
qed

lemma excess_bits_ge: "0 < excess_bits n \<Longrightarrow> 2 ^ (52 + excess_bits n) \<le> n"
proof (induction n rule: excess_bits.induct)
  case (1 n)
  from "1.prems" have big: "\<not> n < 2 ^ 53" by (auto simp: excess_bits.simps[of n] split: if_splits)
  then have k: "excess_bits n = Suc (excess_bits (n div 2))" by (simp add: excess_bits.simps[of n])
  show ?case
  proof (cases "0 < excess_bits (n div 2)")
    case True
    with 1 big have "2 ^ (52 + excess_bits (n div 2)) \<le> n div 2" by simp
    then have "2 * 2 ^ (52 + excess_bits (n div 2)) \<le> n" by linarith
    then have "2 ^ (52 + Suc (excess_bits (n div 2))) \<le> n" by (simp only: add_Suc_right power_Suc)
    then show ?thesis by (simp only: k)
  next
    case False
    with big show ?thesis by (simp add: k)
  qed
qed

lemma round_even_ge: "2 ^ k dvd N \<Longrightarrow> N \<le> n \<Longrightarrow> N \<le> round_even n k"
proof -
  assume d: "2 ^ k dvd N" and le: "N \<le> n"
  from d obtain c where c: "N = c * 2 ^ k" by (auto simp: dvd_def mult.commute)
  with le have "c \<le> n div 2 ^ k" by (simp add: less_eq_div_iff_mult_less_eq)
  then have "c * 2 ^ k \<le> (n div 2 ^ k) * 2 ^ k" by simp
  also have "\<dots> \<le> round_even n k" by (simp add: round_even_def Let_def)
  finally show ?thesis by (simp add: c)
qed

lemma round_even_le: "2 * round_even n k \<le> 2 * n + 2 ^ k"
proof -
  define Q where "Q = (n div 2 ^ k) * 2 ^ k"
  define r where "r = n mod 2 ^ k"
  define P :: nat where "P = 2 ^ k"
  have n: "n = Q + r" unfolding Q_def r_def by (metis div_mult_mod_eq)
  show ?thesis
  proof (cases "2 * r > P \<or> (2 * r = P \<and> odd (n div 2 ^ k))")
    case True
    then have "round_even n k = Q + P"
      by (simp add: round_even_def Let_def Q_def r_def P_def)
    moreover from True have "P \<le> 2 * r" by auto
    ultimately show ?thesis using n unfolding P_def[symmetric] by linarith
  next
    case False
    then have "round_even n k = Q"
      by (simp add: round_even_def Let_def Q_def r_def P_def)
    then show ?thesis using n by linarith
  qed
qed

lemma round_even_exact: "round_even n 0 = n"
  by (simp add: round_even_def)

lemma excess_bits_random:
  assumes "is_random (m, e)" and "0 < excess_bits (m * 11)"
  shows "excess_bits (m * 11) + 49 \<le> e" and "excess_bits (m * 11) \<le> 4"
proof -
  let ?k = "excess_bits (m * 11)"
  from assms(1) have m: "m < 2 ^ 53" "m < 2 ^ e" by (simp_all add: is_random_def)
  have lo: "2 ^ (52 + ?k) \<le> m * 11" using assms(2) by (rule excess_bits_ge)
  from m(2) have "m * 11 < 16 * 2 ^ e" by simp
  also have "\<dots> = 2 ^ (e + 4)" by (simp add: power_add)
  finally have "m * 11 < 2 ^ (e + 4)" .
  with lo have "(2::nat) ^ (52 + ?k) < 2 ^ (e + 4)" by (rule le_less_trans)
  then have "52 + ?k < e + 4" by (simp only: power_strict_increasing_iff)
  then show "?k + 49 \<le> e" by simp
  from m(1) have "m * 11 < 16 * 2 ^ 53" by simp
  also have "\<dots> = 2 ^ 57" by simp
  finally have "m * 11 < 2 ^ 57" .
  with lo have "(2::nat) ^ (52 + ?k) < 2 ^ 57" by (rule le_less_trans)
  then have "52 + ?k < 57" by (simp only: power_strict_increasing_iff)
  then show "?k \<le> 4" by simp
qed

text \<open>The floor of the rounded product against the exact product.\<close>

lemma floor_ge_of_exact:
  assumes r: "is_random (m, e)" and le: "j * 2 ^ e \<le> m * 11"
  shows "j \<le> round_even (m * 11) (excess_bits (m * 11)) div 2 ^ e"
proof -
  let ?k = "excess_bits (m * 11)"
  have "?k \<le> e"
  proof (cases "0 < ?k")
    case True
    from excess_bits_random(1)[OF r True] show ?thesis by simp
  next
    case False
    then show ?thesis by simp
  qed
  then have "(2::nat) ^ ?k dvd 2 ^ e" by (rule le_imp_power_dvd)
  then have "2 ^ ?k dvd j * 2 ^ e" by (rule dvd_mult)
  from round_even_ge[OF this le] show ?thesis
    by (simp add: less_eq_div_iff_mult_less_eq)
qed

lemma rounded_le_exact_plus:
  assumes r: "is_random (m, e)"
  shows "real (round_even (m * 11) (excess_bits (m * 11))) \<le> real (m * 11) + 2 ^ e / 2 ^ 50"
    and "round_even (m * 11) (excess_bits (m * 11)) \<le> m * 11 + 8"
proof -
  let ?k = "excess_bits (m * 11)"
  let ?R = "round_even (m * 11) ?k"
  have le: "2 * ?R \<le> 2 * (m * 11) + 2 ^ ?k" by (rule round_even_le)
  show "real ?R \<le> real (m * 11) + 2 ^ e / 2 ^ 50"
  proof (cases "0 < ?k")
    case False
    then show ?thesis by (simp add: round_even_exact)
  next
    case True
    from excess_bits_random(1)[OF r True] have "?k + 49 \<le> e" .
    then have "(2::nat) ^ (?k + 49) \<le> 2 ^ e" by (rule power_increasing) simp
    then have "(2::nat) ^ ?k * 2 ^ 49 \<le> 2 ^ e" by (simp only: power_add)
    then have "real (2 ^ ?k * 2 ^ 49) \<le> real (2 ^ e)" by (simp only: of_nat_le_iff)
    then have p: "(2::real) ^ ?k \<le> 2 ^ e / 2 ^ 49" by (simp add: field_simps)
    from le have "real (2 * ?R) \<le> real (2 * (m * 11) + 2 ^ ?k)" by (simp only: of_nat_le_iff)
    then have "2 * real ?R \<le> 2 * real (m * 11) + 2 ^ ?k" by simp
    with p have "2 * real ?R \<le> 2 * real (m * 11) + 2 ^ e / 2 ^ 49" by linarith
    then show ?thesis by simp
  qed
  show "?R \<le> m * 11 + 8"
  proof (cases "0 < ?k")
    case False
    then show ?thesis by (simp add: round_even_exact)
  next
    case True
    from excess_bits_random(2)[OF r True] have "(2::nat) ^ ?k \<le> 2 ^ 4"
      by (rule power_increasing) simp
    with le show ?thesis by simp
  qed
qed

lemma gain_of_eq: "gain_of (m, e) = 15 + int (round_even (m * 11) (excess_bits (m * 11)) div 2 ^ e)"
  by (simp add: gain_of_def times_11_def)

lemma gain_of_range:
  assumes r: "is_random random"
  shows "15 \<le> gain_of random \<and> gain_of random \<le> 25"
proof -
  obtain m e where me: "random = (m, e)" by (cases random)
  from r me have "m < 2 ^ e" by (simp add: is_random_def)
  then have "m * 11 + 11 \<le> 11 * 2 ^ e" by simp
  with rounded_le_exact_plus(2)[of m e] r me
  have "round_even (m * 11) (excess_bits (m * 11)) < 11 * 2 ^ e" by simp
  then have "round_even (m * 11) (excess_bits (m * 11)) div 2 ^ e < 11"
    by (simp add: div_less_iff_less_mult)
  then show ?thesis by (simp add: me gain_of_eq)
qed

lemma gain_of_lower: "15 \<le> gain_of random"
  by (cases random) (simp add: gain_of_eq)

text \<open>
  Each gain is drawn on an interval of \<open>[0, 1)\<close> that is the exact eleventh up to
  \<open>1 / 2 ^ 53\<close> at its ends.
\<close>

lemma gain_of_interval_fwd:
  assumes r: "is_random (m, e)"
  shows "(real_of_int (gain_of (m, e)) - 15) / 11 - 1 / 2 ^ 53 \<le> value_of (m, e)"
    and "value_of (m, e) < (real_of_int (gain_of (m, e)) - 14) / 11"
proof -
  let ?R = "round_even (m * 11) (excess_bits (m * 11))"
  define j where "j = ?R div 2 ^ e"
  define P :: real where "P = 2 ^ e"
  have P: "0 < P" by (simp add: P_def)
  have g: "real_of_int (gain_of (m, e)) = 15 + real j" by (simp add: gain_of_eq j_def)
  have v: "value_of (m, e) = real m / P" by (simp add: value_of_def P_def)
  have "j * 2 ^ e \<le> ?R" unfolding j_def by (rule div_times_less_eq_dividend)
  then have "real (j * 2 ^ e) \<le> real ?R" by (simp only: of_nat_le_iff)
  then have "real j * P \<le> real ?R" by (simp add: P_def)
  also have "\<dots> \<le> real (m * 11) + 2 ^ e / 2 ^ 50" by (rule rounded_le_exact_plus(1)[OF r])
  finally have "real j * P \<le> real m * 11 + P / 2 ^ 50" by (simp add: P_def)
  then have "real j * P / P \<le> (real m * 11 + P / 2 ^ 50) / P" using P by (simp only: divide_right_mono less_imp_le)
  then have "real j \<le> 11 * (real m / P) + 1 / 2 ^ 50" using P by (simp add: field_simps)
  then show "(real_of_int (gain_of (m, e)) - 15) / 11 - 1 / 2 ^ 53 \<le> value_of (m, e)"
    unfolding g v by simp
  show "value_of (m, e) < (real_of_int (gain_of (m, e)) - 14) / 11"
  proof (rule ccontr)
    assume "\<not> value_of (m, e) < (real_of_int (gain_of (m, e)) - 14) / 11"
    then have "(real j + 1) / 11 \<le> real m / P" unfolding g v by simp
    then have "(real j + 1) * P \<le> real m * 11" using P by (simp add: field_simps)
    then have "real (Suc j * 2 ^ e) \<le> real (m * 11)" by (simp add: P_def algebra_simps)
    then have "Suc j * 2 ^ e \<le> m * 11" by (simp only: of_nat_le_iff)
    from floor_ge_of_exact[OF r this] show False by (simp add: j_def)
  qed
qed

lemma gain_of_interval_bwd:
  assumes r: "is_random (m, e)"
    and lo: "(real_of_int k - 15) / 11 \<le> value_of (m, e)"
    and hi: "value_of (m, e) < (real_of_int k - 14) / 11 - 1 / 2 ^ 53"
  shows "gain_of (m, e) = k"
proof -
  let ?R = "round_even (m * 11) (excess_bits (m * 11))"
  define P :: real where "P = 2 ^ e"
  have P: "0 < P" by (simp add: P_def)
  have v: "value_of (m, e) = real m / P" by (simp add: value_of_def P_def)
  have "0 \<le> value_of (m, e)" by (simp add: value_of_def)
  moreover have "(0::real) < 1 / 2 ^ 53" by simp
  ultimately have "0 < (real_of_int k - 14) / 11" using hi by linarith
  then have "14 < k" by simp
  define j where "j = nat (k - 15)"
  from \<open>14 < k\<close> have k: "k = 15 + int j" by (simp add: j_def)
  from lo have "real j / 11 \<le> real m / P" unfolding v k by simp
  then have "real j * P \<le> real m * 11" using P by (simp add: field_simps)
  then have "real (j * 2 ^ e) \<le> real (m * 11)" by (simp add: P_def)
  then have "j * 2 ^ e \<le> m * 11" by (simp only: of_nat_le_iff)
  from floor_ge_of_exact[OF r this] have ge: "j \<le> ?R div 2 ^ e" .
  from hi have "real m / P < (real j + 1) / 11 - 1 / 2 ^ 53" unfolding v k by (simp add: add.commute)
  then have "real m * 11 + 11 * P / 2 ^ 53 < (real j + 1) * P" using P by (simp add: field_simps)
  moreover have "real ?R \<le> real m * 11 + P / 2 ^ 50"
    using rounded_le_exact_plus(1)[OF r] by (simp add: P_def)
  moreover have "P / 2 ^ 50 \<le> 11 * P / 2 ^ 53" using P by simp
  ultimately have "real ?R < (real j + 1) * P" by linarith
  then have "real ?R < real (Suc j * 2 ^ e)" by (simp add: P_def algebra_simps)
  then have "?R < Suc j * 2 ^ e" by (simp only: of_nat_less_iff)
  then have "?R div 2 ^ e < Suc j" by (simp add: div_less_iff_less_mult)
  with ge have "?R div 2 ^ e = j" by simp
  then show ?thesis by (simp add: gain_of_eq k)
qed

text \<open>Two doubles: one half (as \<open>2 / 2 ^ 2\<close>), and one just below \<open>3 / 11\<close> whose product rounds up to 3.\<close>

lemma gain_of_half: "gain_of (2, 2) = 20"
proof -
  have "excess_bits 22 = 0" by (simp add: excess_bits.simps)
  then show ?thesis by (simp add: gain_of_def times_11_def round_even_exact)
qed

lemma gain_of_rounds_up:
  "gain_of (1228254443828317, 52) = 18 \<and> value_of (1228254443828317, 52) < 3 / 11 \<and>
   gain_of (1228254443828317, 51) = 21 \<and> value_of (1228254443828317, 51) < 6 / 11"
proof -
  have "excess_bits 13510798882111487 = 1" by (simp add: excess_bits.simps)
  moreover have "round_even 13510798882111487 1 = 13510798882111488" by (simp add: round_even_def)
  ultimately show ?thesis by (simp add: gain_of_def times_11_def value_of_def)
qed

section \<open>The paths of the message handler\<close>

lemma messageCreate_ignored:
  "message_guild m = None \<or> author_bot m \<Longrightarrow> messageCreate rejects random nowA nowL m w = w"
  by (auto simp: messageCreate_def split: option.splits)

lemma messageCreate_blocked:
  "message_guild m = Some g \<Longrightarrow> \<not> author_bot m \<Longrightarrow>
   automod_blocks (message_content m) (joinedTimestamp (message_member m)) nowA
     (can_ManageMessages (message_member m)) \<Longrightarrow>
   messageCreate rejects random nowA nowL m w = automod_actions rejects g m w"
  by (simp add: messageCreate_def)

lemma messageCreate_levels:
  "message_guild m = Some g \<Longrightarrow> \<not> author_bot m \<Longrightarrow>
   \<not> automod_blocks (message_content m) (joinedTimestamp (message_member m)) nowA
     (can_ManageMessages (message_member m)) \<Longrightarrow>
   messageCreate rejects random nowA nowL m w = leveling random nowL g m w"
  by (simp add: messageCreate_def)

lemma automod_actions_store: "store (automod_actions rejects g m w) = store w"
  by (simp add: automod_actions_def Let_def run_stmt_def issue_caught_def issue_uncaught_def
      split: option.splits prod.splits bool.splits)

lemma automod_actions_writes: "writes (automod_actions rejects g m w) = writes w"
  by (simp add: automod_actions_def Let_def run_stmt_def issue_caught_def issue_uncaught_def writes_def
      split: option.splits prod.splits bool.splits)

lemma leveling_off:
  "sql_getCfg (store w) (guild_id g) = None \<or>
   (\<exists>c. sql_getCfg (store w) (guild_id g) = Some c \<and> leveling_enabled c \<noteq> 1) \<Longrightarrow>
   leveling random now g m w = run_stmt (GetCfg (guild_id g)) w"
  by (auto simp: leveling_def Let_def)

lemma leveling_cooldown:
  assumes "sql_getCfg (store w) (guild_id g) = Some c" "leveling_enabled c = 1"
    and "now - last_xp_ts (user_or_default (store w) (guild_id g) (author_id m)) < cooldownMs"
  shows "leveling random now g m w =
         run_stmts [GetCfg (guild_id g), GetUser (guild_id g) (author_id m)] w"
  using assms by (simp add: leveling_def Let_def run_stmts_def run_stmt_def)

lemma leveling_gain:
  assumes "sql_getCfg (store w) (guild_id g) = Some c" "leveling_enabled c = 1"
    and "\<not> now - last_xp_ts (user_or_default (store w) (guild_id g) (author_id m)) < cooldownMs"
    and "levelUp (xp (user_or_default (store w) (guild_id g) (author_id m)) + gain_of random)
           (level (user_or_default (store w) (guild_id g) (author_id m))) False = (x', l', b')"
  shows "leveling random now g m w =
     (let w4 = run_stmts [GetCfg (guild_id g), GetUser (guild_id g) (author_id m),
                 UpsertUser (guild_id g) (author_id m) x' l'
                   (last_xp_ts (user_or_default (store w) (guild_id g) (author_id m))),
                 SetLastXP now (guild_id g) (author_id m)] w
      in if b' then issue_caught (ChannelSend (channel_id m) (LevelUpNotice (author_id m) l')) w4
         else w4)"
  using assms by (simp add: leveling_def Let_def run_stmts_def run_stmt_def)

lemma two_writes_users:
  "users (sql_setLastXP now g u (sql_upsertUser g u x l ts d)) =
     (users d)((g, u) \<mapsto> \<lparr>xp = x, level = l, last_xp_ts = now\<rparr>)"
  by (auto simp: sql_setLastXP_def sql_upsertUser_def split: option.splits)

lemma two_writes_config:
  "guild_config (sql_setLastXP now g u (sql_upsertUser g u x l ts d)) = guild_config d"
  by (auto simp: sql_setLastXP_def sql_upsertUser_def split: option.splits)

lemma leveling_gain_effect:
  assumes "sql_getCfg (store w) (guild_id g) = Some c" "leveling_enabled c = 1"
    and "\<not> now - last_xp_ts (user_or_default (store w) (guild_id g) (author_id m)) < cooldownMs"
    and "levelUp (xp (user_or_default (store w) (guild_id g) (author_id m)) + gain_of random)
           (level (user_or_default (store w) (guild_id g) (author_id m))) False = (x', l', b')"
  shows "users (store (leveling random now g m w)) =
           (users (store w))((guild_id g, author_id m) \<mapsto> \<lparr>xp = x', level = l', last_xp_ts = now\<rparr>)"
    and "guild_config (store (leveling random now g m w)) = guild_config (store w)"
    and "writes (leveling random now g m w) =
           writes w @ [UpsertUser (guild_id g) (author_id m) x' l'
                         (last_xp_ts (user_or_default (store w) (guild_id g) (author_id m))),
                       SetLastXP now (guild_id g) (author_id m)]"
  unfolding leveling_gain[OF assms]
  by (simp_all add: Let_def run_stmts_def run_stmt_def issue_caught_def writes_def
      two_writes_users two_writes_config)

lemma leveling_users_cases:
  assumes "users (store (leveling random now g m w)) k = Some row"
  shows "users (store w) k = Some row \<or>
         (k = (guild_id g, author_id m) \<and>
          (\<exists>b. levelUp (xp (user_or_default (store w) (guild_id g) (author_id m)) + gain_of random)
                 (level (user_or_default (store w) (guild_id g) (author_id m))) False
               = (xp row, level row, b)))"
proof (cases "sql_getCfg (store w) (guild_id g)")
  case None
  with assms show ?thesis by (simp add: leveling_off run_stmt_def)
next
  case (Some c)
  show ?thesis
  proof (cases "leveling_enabled c = 1")
    case False
    with Some assms show ?thesis by (simp add: leveling_off run_stmt_def)
  next
    case True
    show ?thesis
    proof (cases "now - last_xp_ts (user_or_default (store w) (guild_id g) (author_id m)) < cooldownMs")
      case c: True
      with assms show ?thesis
        by (simp add: leveling_cooldown[OF Some True c] run_stmts_def run_stmt_def)
    next
      case c: False
      obtain x' l' b' where lu:
        "levelUp (xp (user_or_default (store w) (guild_id g) (author_id m)) + gain_of random)
           (level (user_or_default (store w) (guild_id g) (author_id m))) False = (x', l', b')"
        by (metis prod_cases3)
      from assms show ?thesis
        unfolding leveling_gain_effect(1)[OF Some True c lu] lu
        by (auto split: if_splits)
    qed
  qed
qed

section \<open>Evaluating the handlers on concrete inputs\<close>

lemmas eval_defs =
  messageCreate_def automod_blocks_def isInvite_def canonicalize_def sevenDays_def cooldownMs_def
  leveling_def automod_actions_def user_or_default_def sql_getCfg_def sql_getUser_def
  sql_upsertUser_def sql_setLastXP_def sql_upsertCfg_def run_stmt_def run_stmts_def
  issue_caught_def issue_uncaught_def writes_def fresh_def gain_of_half xpForNext_def
  channel_if_set_def or_null_def Let_def
  g0_def mem0_def m0_def cfg0_def d_empty_def d_cfg_def d_user_def

lemma m0_not_invite: "\<not> isInvite ''hello''"
  by (simp add: isInvite_def canonicalize_def)

lemma rollover_example: "users (store (messageCreate (\<lambda>a. False) (2, 2) 60000 60000 m0 (fresh d_user))) (''g1'', ''u1'')
   = Some \<lparr>xp = 10, level = 1, last_xp_ts = 60000\<rparr>"
  by (simp add: eval_defs levelUp.simps)

section \<open>The invite pattern as a substring test\<close>

lemma match_here_iff:
  "match_here p s \<longleftrightarrow> (\<exists>post. map canonicalize s = map canonicalize p @ post)"
  by (induction p s rule: match_here.induct) auto

lemma regex_test_iff:
  "regex_test alts s \<longleftrightarrow>
     (\<exists>p \<in> set alts. \<exists>pre post. map canonicalize s = pre @ map canonicalize p @ post)"
proof (induction s)
  case Nil
  show ?case by (auto simp: list_ex_iff match_here_iff)
next
  case (Cons c cs)
  show ?case
  proof
    assume "regex_test alts (c # cs)"
    then consider p where "p \<in> set alts" "match_here p (c # cs)" | "regex_test alts cs"
      by (auto simp: list_ex_iff)
    then show "\<exists>p \<in> set alts. \<exists>pre post. map canonicalize (c # cs) = pre @ map canonicalize p @ post"
    proof cases
      case 1
      then obtain post where "map canonicalize (c # cs) = [] @ map canonicalize p @ post"
        by (auto simp: match_here_iff)
      with 1(1) show ?thesis by blast
    next
      case 2
      with Cons.IH obtain p pre post where "p \<in> set alts"
        "map canonicalize cs = pre @ map canonicalize p @ post" by blast
      then have "map canonicalize (c # cs) = (canonicalize c # pre) @ map canonicalize p @ post"
        by simp
      with \<open>p \<in> set alts\<close> show ?thesis by blast
    qed
  next
    assume "\<exists>p \<in> set alts. \<exists>pre post. map canonicalize (c # cs) = pre @ map canonicalize p @ post"
    then obtain p pre post where p: "p \<in> set alts"
      and eq: "map canonicalize (c # cs) = pre @ map canonicalize p @ post" by blast
    show "regex_test alts (c # cs)"
    proof (cases pre)
      case Nil
      with eq have "match_here p (c # cs)" unfolding match_here_iff by auto
      with p show ?thesis by (auto simp: list_ex_iff)
    next
      case (Cons x pre')
      with eq have "map canonicalize cs = pre' @ map canonicalize p @ post" by simp
      with p Cons.IH have "regex_test alts cs" by blast
      then show ?thesis by simp
    qed
  qed
qed

lemma isInvite_iff:
  "isInvite body \<longleftrightarrow>
     (\<exists>pre post. map canonicalize body = pre @ ''DISCORD.GG/'' @ post) \<or>
     (\<exists>pre post. map canonicalize body = pre @ ''DISCORD.COM/INVITE/'' @ post)"
proof -
  have a: "map canonicalize ''discord.gg/'' = ''DISCORD.GG/''"
    and b: "map canonicalize ''discord.com/invite/'' = ''DISCORD.COM/INVITE/''"
    by (simp_all add: canonicalize_def)
  have "isInvite body \<longleftrightarrow>
     (\<exists>pre post. map canonicalize body = pre @ map canonicalize ''discord.gg/'' @ post) \<or>
     (\<exists>pre post. map canonicalize body = pre @ map canonicalize ''discord.com/invite/'' @ post)"
    unfolding isInvite_def regex_test_iff
    by (simp only: list.set Bex_def insert_iff empty_iff) blast
  then show ?thesis unfolding a b .
qed

section \<open>What the two branches issue\<close>

lemma leveling_issued:
  "issued (leveling random now g m w) = issued w \<or>
   (\<exists>l. issued (leveling random now g m w) = issued w @ [ChannelSend (channel_id m) (LevelUpNotice (author_id m) l)])"
proof (cases "sql_getCfg (store w) (guild_id g)")
  case None
  then show ?thesis by (simp add: leveling_off run_stmt_def)
next
  case (Some c)
  show ?thesis
  proof (cases "leveling_enabled c = 1")
    case False
    with Some show ?thesis by (simp add: leveling_off run_stmt_def)
  next
    case True
    show ?thesis
    proof (cases "now - last_xp_ts (user_or_default (store w) (guild_id g) (author_id m)) < cooldownMs")
      case c: True
      show ?thesis
        by (simp add: leveling_cooldown[OF Some True c] run_stmts_def run_stmt_def)
    next
      case c: False
      obtain x' l' b' where lu:
        "levelUp (xp (user_or_default (store w) (guild_id g) (author_id m)) + gain_of random)
           (level (user_or_default (store w) (guild_id g) (author_id m))) False = (x', l', b')"
        by (metis prod_cases3)
      show ?thesis
        unfolding leveling_gain[OF Some True c lu]
        by (simp add: Let_def run_stmts_def run_stmt_def issue_caught_def)
    qed
  qed
qed

lemma automod_actions_deletes:
  "MessageDelete (message_id m) \<in> set (issued (automod_actions rejects g m w))"
  by (simp add: automod_actions_def Let_def run_stmt_def issue_caught_def issue_uncaught_def
      split: option.splits prod.splits bool.splits)

section \<open>Five messages of 20 XP\<close>

lemma m0_levels:
  "messageCreate rejects random nowA nowL m0 w = leveling random nowL g0 m0 w"
  by (rule messageCreate_levels) (simp_all add: m0_def automod_blocks_def m0_not_invite)

lemma step_20:
  assumes g: "gain_of random = 20"
    and cfg: "guild_config (store w) = [''g1'' \<mapsto> cfg0]"
    and us: "users (store w) (''g1'', ''u1'') = r0"
    and rec: "(case r0 of Some r \<Rightarrow> r | None \<Rightarrow> \<lparr>xp = 0, level = 0, last_xp_ts = 0\<rparr>)
               = \<lparr>xp = x, level = 0, last_xp_ts = ts\<rparr>"
    and t: "ts + 60000 \<le> now"
    and lu: "levelUp (x + 20) 0 False = (x', l', b')"
  shows "guild_config (store (messageCreate rejects random nowA now m0 w)) = [''g1'' \<mapsto> cfg0]"
    and "users (store (messageCreate rejects random nowA now m0 w)) (''g1'', ''u1'')
           = Some \<lparr>xp = x', level = l', last_xp_ts = now\<rparr>"
proof -
  have ids: "guild_id g0 = ''g1''" "author_id m0 = ''u1''" by (simp_all add: g0_def m0_def)
  have c: "sql_getCfg (store w) (guild_id g0) = Some cfg0" "leveling_enabled cfg0 = 1"
    using cfg by (simp_all add: sql_getCfg_def ids cfg0_def)
  have r: "user_or_default (store w) (guild_id g0) (author_id m0) = \<lparr>xp = x, level = 0, last_xp_ts = ts\<rparr>"
    using us rec by (simp add: user_or_default_def sql_getUser_def ids)
  have nc: "\<not> now - last_xp_ts (user_or_default (store w) (guild_id g0) (author_id m0)) < cooldownMs"
    using t by (simp add: r cooldownMs_def)
  have lu': "levelUp (xp (user_or_default (store w) (guild_id g0) (author_id m0)) + gain_of random)
           (level (user_or_default (store w) (guild_id g0) (author_id m0))) False = (x', l', b')"
    using lu by (simp add: r g)
  note E = leveling_gain_effect[OF c nc lu']
  show "guild_config (store (messageCreate rejects random nowA now m0 w)) = [''g1'' \<mapsto> cfg0]"
    unfolding m0_levels E(2) by (rule cfg)
  show "users (store (messageCreate rejects random nowA now m0 w)) (''g1'', ''u1'')
           = Some \<lparr>xp = x', level = l', last_xp_ts = now\<rparr>"
    unfolding m0_levels E(1) by (simp add: ids)
qed

lemma four_messages_20:
  assumes g: "gain_of random = 20"
  shows "guild_config (store (four_messages random)) = [''g1'' \<mapsto> cfg0]"
    and "users (store (four_messages random)) (''g1'', ''u1'')
           = Some \<lparr>xp = 80, level = 0, last_xp_ts = 240000\<rparr>"
proof -
  let ?mc = "\<lambda>t. messageCreate (\<lambda>a. False) random t t m0"
  let ?w1 = "?mc 60000 (fresh d_cfg)"
  let ?w2 = "?mc 120000 ?w1"
  let ?w3 = "?mc 180000 ?w2"
  let ?w4 = "?mc 240000 ?w3"
  have lu: "levelUp (0 + 20) 0 False = (20, 0, False)" "levelUp (20 + 20) 0 False = (40, 0, False)"
    "levelUp (40 + 20) 0 False = (60, 0, False)" "levelUp (60 + 20) 0 False = (80, 0, False)"
    by (simp_all add: levelUp.simps xpForNext_def)
  have s0: "guild_config (store (fresh d_cfg)) = [''g1'' \<mapsto> cfg0]"
    "users (store (fresh d_cfg)) (''g1'', ''u1'') = None"
    by (simp_all add: fresh_def d_cfg_def)
  note s1 = step_20[OF g s0 _ _ lu(1), where ts = 0 and now = 60000 and nowA = 60000
      and rejects = "\<lambda>a. False", simplified]
  note s2 = step_20[OF g s1 _ _ lu(2), where ts = 60000 and now = 120000 and nowA = 120000
      and rejects = "\<lambda>a. False", simplified]
  note s3 = step_20[OF g s2 _ _ lu(3), where ts = 120000 and now = 180000 and nowA = 180000
      and rejects = "\<lambda>a. False", simplified]
  note s4 = step_20[OF g s3 _ _ lu(4), where ts = 180000 and now = 240000 and nowA = 240000
      and rejects = "\<lambda>a. False", simplified]
  have f: "four_messages random = ?w4" by (simp add: four_messages_def)
  show "guild_config (store (four_messages random)) = [''g1'' \<mapsto> cfg0]"
    unfolding f by (rule s4(1))
  show "users (store (four_messages random)) (''g1'', ''u1'')
           = Some \<lparr>xp = 80, level = 0, last_xp_ts = 240000\<rparr>"
    unfolding f by (rule s4(2))
qed

lemma five_messages_20:
  assumes g: "gain_of random = 20"
  shows "users (store (five_messages random)) (''g1'', ''u1'')
           = Some \<lparr>xp = 0, level = 1, last_xp_ts = 300000\<rparr>"
proof -
  have lu: "levelUp (80 + 20) 0 False = (0, 1, True)"
    by (simp add: levelUp.simps xpForNext_def)
  have f: "five_messages random
         = messageCreate (\<lambda>a. False) random 300000 300000 m0 (four_messages random)"
    by (simp add: five_messages_def four_messages_def)
  show ?thesis
    unfolding f
    by (rule step_20(2)[OF g four_messages_20[OF g] _ _ lu, where ts = 240000, simplified]) simp
qed

section \<open>The configuration commands write whole rows\<close>

lemmas cmd_defs = handleSetWelcome_def handleSetAutorole_def handleToggleLeveling_def
  handleSetLog_def prior_def prior_leveling_def run_stmts_def run_stmt_def issue_uncaught_def
  sql_getCfg_def sql_upsertCfg_def or_null_def Let_def

lemma or_null_idem: "or_null (or_null x) = or_null x"
  by (simp add: or_null_def split: option.splits)

lemma handleCommand_idem:
  "store (handleCommand rejects g c (handleCommand rejects g c w)) = store (handleCommand rejects g c w)"
  by (cases c) (simp_all add: cmd_defs split: option.splits)

lemma handleCommand_both:
  assumes "\<not> same_field a b" "nonempty_args a"
  shows "\<exists>row. sql_getCfg (store (handleCommand rejects g b (handleCommand rejects g a w))) g = Some row
           \<and> command_holds a row \<and> command_holds b row"
  using assms by (cases a; cases b) (simp_all add: cmd_defs)

lemma handleCommand_kept:
  assumes "\<not> same_field a b"
  shows "\<exists>row. sql_getCfg (store (handleCommand rejects g b (handleCommand rejects g a w))) g = Some row
           \<and> command_kept a row \<and> command_holds b row"
  using assms by (cases a; cases b) (simp_all add: cmd_defs)

section \<open>The role menu when the gateway accepts every action\<close>

lemmas menu_defs = roleMenuSelect_def on_error_def issue_caught_def Let_def

lemma roleMenuSelect_accepted:
  assumes "startsWith (customId i) ''role_menu:''" and "\<forall>a. \<not> rejects a"
  shows "roleMenuSelect rejects i held w =
     (let manageable = filter (\<lambda>rid. roles_cache (menu_guild i) rid = Some True) (component_options i);
          toRemove = filter (\<lambda>r. r \<in> set manageable) held;
          held1 = filter (\<lambda>r. r \<notin> set toRemove) held
      in (held1 @ filter (\<lambda>r. r \<notin> set held1) (selected_values i),
          w\<lparr>issued := issued w @ [MembersFetch (user_id i), RolesRemove (user_id i) toRemove,
                                   RolesAdd (user_id i) (selected_values i), Reply RolesUpdated]\<rparr>))"
  using assms by (simp add: menu_defs)

section \<open>The claims\<close>

text \<open>
  Claim C1. The claim: a community with no configuration row is treated as having
  leveling enabled, and a qualifying message there is granted XP. The handler returns
  at \<^verbatim>\<open>if (!cfg || cfg.leveling_enabled !== 1) return;\<close>: with no row it reads the
  configuration and stops, writing nothing, while the same message in a guild whose row
  has \<^verbatim>\<open>leveling_enabled = 1\<close> is granted 20 XP.
\<close>

theorem C1_no_config_row_never_gains:
  "sql_getCfg d_empty (guild_id g0) = None \<and>
   messageCreate (\<lambda>a. False) (2, 2) 60000 60000 m0 (fresh d_empty)
     = (fresh d_empty)\<lparr>stmts := [GetCfg ''g1'']\<rparr> \<and>
   writes (messageCreate (\<lambda>a. False) (2, 2) 60000 60000 m0 (fresh d_empty)) = [] \<and>
   users (store (messageCreate (\<lambda>a. False) (2, 2) 60000 60000 m0 (fresh d_empty))) (''g1'', ''u1'')
     = None \<and>
   users (store (messageCreate (\<lambda>a. False) (2, 2) 60000 60000 m0 (fresh d_cfg))) (''g1'', ''u1'')
     = Some \<lparr>xp = 20, level = 0, last_xp_ts = 60000\<rparr>"
  by (simp add: eval_defs levelUp.simps)

text \<open>
  Claim C2, as the code has it. For a message that reaches the leveling part in a guild
  whose row enables leveling: when \<^verbatim>\<open>now - last_xp_ts < 60 * 1000\<close> (milliseconds)
  nothing is written and the tables are unchanged; otherwise exactly two statements
  write, in this order: \<^verbatim>\<open>upsertUser\<close> with the new xp and level (and the old
  timestamp, used only when the row is inserted), then \<^verbatim>\<open>setLastXP\<close> with the time
  of the message. After both the member's row holds the new xp, the new level and that
  time; no other row changes.
\<close>

theorem C2_cooldown_then_two_writes:
  assumes "message_guild m = Some g" and "\<not> author_bot m"
    and "\<not> automod_blocks (message_content m) (joinedTimestamp (message_member m)) nowA
            (can_ManageMessages (message_member m))"
    and "sql_getCfg (store w) (guild_id g) = Some c" and "leveling_enabled c = 1"
  shows "let rec = user_or_default (store w) (guild_id g) (author_id m);
             w' = messageCreate rejects random nowA nowL m w
         in if nowL - last_xp_ts rec < 60 * 1000
            then writes w' = writes w \<and> store w' = store w
            else (case levelUp (xp rec + gain_of random) (level rec) False of
                    (x', l', b') \<Rightarrow>
                      writes w' = writes w @
                        [UpsertUser (guild_id g) (author_id m) x' l' (last_xp_ts rec),
                         SetLastXP nowL (guild_id g) (author_id m)] \<and>
                      users (store w') = (users (store w))
                        ((guild_id g, author_id m) \<mapsto> \<lparr>xp = x', level = l', last_xp_ts = nowL\<rparr>) \<and>
                      guild_config (store w') = guild_config (store w))"
proof -
  let ?rec = "user_or_default (store w) (guild_id g) (author_id m)"
  have mc: "messageCreate rejects random nowA nowL m w = leveling random nowL g m w"
    using assms(1-3) by (rule messageCreate_levels)
  show ?thesis
  proof (cases "nowL - last_xp_ts ?rec < cooldownMs")
    case True
    then have "nowL - last_xp_ts ?rec < 60 * 1000" by (simp add: cooldownMs_def)
    then show ?thesis
      unfolding mc leveling_cooldown[OF assms(4,5) True]
      by (simp add: Let_def run_stmts_def run_stmt_def writes_def)
  next
    case False
    then have nc: "\<not> nowL - last_xp_ts ?rec < 60 * 1000" by (simp add: cooldownMs_def)
    obtain x' l' b' where lu: "levelUp (xp ?rec + gain_of random) (level ?rec) False = (x', l', b')"
      by (metis prod_cases3)
    from nc show ?thesis
      unfolding mc Let_def lu
      by (simp add: leveling_gain_effect[OF assms(4,5) False lu])
  qed
qed

text \<open>
  The claim C2 as stated asks for exactly one write on a qualifying message. On the
  first message of a member the handler writes twice, and between the two writes the
  row holds the new xp with the old timestamp.
\<close>

theorem C2_one_write_counterexample:
  "\<not> 60000 - last_xp_ts (user_or_default d_cfg ''g1'' ''u1'') < 60 \<and>
   writes (messageCreate (\<lambda>a. False) (2, 2) 60000 60000 m0 (fresh d_cfg))
     = [UpsertUser ''g1'' ''u1'' 20 0 0, SetLastXP 60000 ''g1'' ''u1''] \<and>
   length (writes (messageCreate (\<lambda>a. False) (2, 2) 60000 60000 m0 (fresh d_cfg))) \<noteq> 1 \<and>
   users (exec_stmt (UpsertUser ''g1'' ''u1'' 20 0 0) d_cfg) (''g1'', ''u1'')
     = Some \<lparr>xp = 20, level = 0, last_xp_ts = 0\<rparr>"
  by (simp add: eval_defs levelUp.simps)

text \<open>
  The theorem of C2 at a member with 90 XP at level 0: a message at 60000 ms writes
  twice and leaves 10 XP at level 1; a message at 59999 ms writes nothing.
\<close>

theorem C2_witness:
  "message_guild m0 = Some g0 \<and> \<not> author_bot m0 \<and>
   \<not> automod_blocks (message_content m0) (joinedTimestamp (message_member m0)) 60000
        (can_ManageMessages (message_member m0)) \<and>
   sql_getCfg (store (fresh d_user)) (guild_id g0) = Some cfg0 \<and> leveling_enabled cfg0 = 1 \<and>
   writes (messageCreate (\<lambda>a. False) (2, 2) 60000 60000 m0 (fresh d_user))
     = [UpsertUser ''g1'' ''u1'' 10 1 0, SetLastXP 60000 ''g1'' ''u1''] \<and>
   users (store (messageCreate (\<lambda>a. False) (2, 2) 60000 60000 m0 (fresh d_user))) (''g1'', ''u1'')
     = Some \<lparr>xp = 10, level = 1, last_xp_ts = 60000\<rparr> \<and>
   writes (messageCreate (\<lambda>a. False) (2, 2) 59999 59999 m0 (fresh d_user)) = [] \<and>
   store (messageCreate (\<lambda>a. False) (2, 2) 59999 59999 m0 (fresh d_user)) = d_user"
proof -
  have h: "message_guild m0 = Some g0" "\<not> author_bot m0"
    "sql_getCfg (store (fresh d_user)) (guild_id g0) = Some cfg0" "leveling_enabled cfg0 = 1"
    by (simp_all add: eval_defs d_user_def)
  have a: "\<not> automod_blocks (message_content m0) (joinedTimestamp (message_member m0)) t
        (can_ManageMessages (message_member m0))" for t
    by (simp add: automod_blocks_def m0_def m0_not_invite)
  have ids: "guild_id g0 = ''g1''" "author_id m0 = ''u1''"
    by (simp_all add: g0_def m0_def)
  have r: "user_or_default d_user ''g1'' ''u1'' = \<lparr>xp = 90, level = 0, last_xp_ts = 0\<rparr>"
    by (simp add: user_or_default_def sql_getUser_def d_user_def)
  have lu: "levelUp (90 + gain_of (2, 2)) 0 False = (10, 1, True)"
    by (simp add: gain_of_half levelUp.simps xpForNext_def)
  have w0: "writes (fresh d_user) = []" "store (fresh d_user) = d_user"
    by (simp_all add: writes_def fresh_def)
  note A = C2_cooldown_then_two_writes[where nowA = 60000 and nowL = 60000
      and rejects = "\<lambda>a. False" and random = "(2, 2)", OF h(1,2) a h(3,4)]
  note B = C2_cooldown_then_two_writes[where nowA = 59999 and nowL = 59999
      and rejects = "\<lambda>a. False" and random = "(2, 2)", OF h(1,2) a h(3,4)]
  from A have "writes (messageCreate (\<lambda>a. False) (2, 2) 60000 60000 m0 (fresh d_user))
     = [UpsertUser ''g1'' ''u1'' 10 1 0, SetLastXP 60000 ''g1'' ''u1'']"
    and "users (store (messageCreate (\<lambda>a. False) (2, 2) 60000 60000 m0 (fresh d_user))) (''g1'', ''u1'')
     = Some \<lparr>xp = 10, level = 1, last_xp_ts = 60000\<rparr>"
    by (simp_all add: Let_def ids w0 r lu)
  moreover from B have "writes (messageCreate (\<lambda>a. False) (2, 2) 59999 59999 m0 (fresh d_user)) = []"
    and "store (messageCreate (\<lambda>a. False) (2, 2) 59999 59999 m0 (fresh d_user)) = d_user"
    by (simp_all add: Let_def ids w0 r)
  ultimately show ?thesis using h a by simp
qed

text \<open>
  Claim C3. The handler takes the automod branch exactly when the upper-cased text
  contains \<^verbatim>\<open>DISCORD.GG/\<close> or \<^verbatim>\<open>DISCORD.COM/INVITE/\<close> (the two invite forms, matched
  without regard to case), the member joined less than seven days (in milliseconds)
  before the clock reading, and the member lacks the permission. A member who joined
  seven days minus one millisecond ago is blocked, one who joined exactly seven days ago
  is not. For a message of a member in a guild, the handler deletes the message exactly
  when that condition holds.
\<close>

theorem C3_automod_block_condition:
  "(automod_blocks body joined now bypass \<longleftrightarrow>
      ((\<exists>pre post. map canonicalize body = pre @ ''DISCORD.GG/'' @ post) \<or>
       (\<exists>pre post. map canonicalize body = pre @ ''DISCORD.COM/INVITE/'' @ post)) \<and>
      now - joined < 7 * 24 * 60 * 60 * 1000 \<and> \<not> bypass) \<and>
   automod_blocks ''discord.gg/abc'' (now - (7 * 24 * 60 * 60 * 1000 - 1)) now False \<and>
   \<not> automod_blocks ''discord.gg/abc'' (now - 7 * 24 * 60 * 60 * 1000) now False \<and>
   (message_guild m = Some g \<and> \<not> author_bot m \<longrightarrow>
      (MessageDelete (message_id m) \<in> set (issued (messageCreate rejects random nowA nowL m (fresh d)))
       \<longleftrightarrow> automod_blocks (message_content m) (joinedTimestamp (message_member m)) nowA
             (can_ManageMessages (message_member m))))"
proof (intro conjI impI)
  show "automod_blocks body joined now bypass \<longleftrightarrow>
      ((\<exists>pre post. map canonicalize body = pre @ ''DISCORD.GG/'' @ post) \<or>
       (\<exists>pre post. map canonicalize body = pre @ ''DISCORD.COM/INVITE/'' @ post)) \<and>
      now - joined < 7 * 24 * 60 * 60 * 1000 \<and> \<not> bypass"
    unfolding automod_blocks_def isInvite_iff by (simp add: sevenDays_def)
  have inv: "isInvite ''discord.gg/abc''"
    by (simp add: isInvite_def canonicalize_def)
  from inv show "automod_blocks ''discord.gg/abc'' (now - (7 * 24 * 60 * 60 * 1000 - 1)) now False"
    by (simp add: automod_blocks_def sevenDays_def)
  show "\<not> automod_blocks ''discord.gg/abc'' (now - 7 * 24 * 60 * 60 * 1000) now False"
    by (simp add: automod_blocks_def sevenDays_def)
next
  assume a: "message_guild m = Some g \<and> \<not> author_bot m"
  let ?b = "automod_blocks (message_content m) (joinedTimestamp (message_member m)) nowA
             (can_ManageMessages (message_member m))"
  show "MessageDelete (message_id m) \<in> set (issued (messageCreate rejects random nowA nowL m (fresh d)))
       \<longleftrightarrow> ?b"
  proof (cases ?b)
    case True
    with a show ?thesis by (simp add: messageCreate_blocked automod_actions_deletes)
  next
    case False
    have "issued (fresh d) = []" by (simp add: fresh_def)
    with leveling_issued[of random nowL g m "fresh d"]
    have "MessageDelete (message_id m) \<notin> set (issued (leveling random nowL g m (fresh d)))"
      by auto
    with a False show ?thesis by (simp add: messageCreate_levels)
  qed
qed

text \<open>The theorem of C3 at a mixed-case invite link from a member who has just joined.\<close>

theorem C3_witness:
  "map canonicalize ''join Discord.GG/abc'' = ''JOIN '' @ ''DISCORD.GG/'' @ ''ABC'' \<and>
   automod_blocks ''join Discord.GG/abc'' 0 1000 False \<and>
   message_guild m_invite = Some g0 \<and> \<not> author_bot m_invite \<and>
   MessageDelete ''m1'' \<in>
     set (issued (messageCreate (\<lambda>a. False) (2, 2) 1000 1000 m_invite (fresh d_cfg)))"
proof -
  note T = C3_automod_block_condition[where body = "''join Discord.GG/abc''" and joined = 0
      and now = 1000 and bypass = False and m = m_invite and g = g0
      and rejects = "\<lambda>a. False" and random = "(2, 2)" and nowA = 1000 and nowL = 1000
      and d = d_cfg]
  have c: "map canonicalize ''join Discord.GG/abc'' = ''JOIN '' @ ''DISCORD.GG/'' @ ''ABC''"
    by (simp add: canonicalize_def)
  then have "\<exists>pre post. map canonicalize ''join Discord.GG/abc'' = pre @ ''DISCORD.GG/'' @ post"
    by blast
  with T have b: "automod_blocks ''join Discord.GG/abc'' 0 1000 False" by simp
  have h: "message_guild m_invite = Some g0" "\<not> author_bot m_invite"
    "message_content m_invite = ''join Discord.GG/abc''"
    "joinedTimestamp (message_member m_invite) = 0"
    "\<not> can_ManageMessages (message_member m_invite)" "message_id m_invite = ''m1''"
    by (simp_all add: m_invite_def m0_def mem0_def)
  from T h b have "MessageDelete ''m1'' \<in>
     set (issued (messageCreate (\<lambda>a. False) (2, 2) 1000 1000 m_invite (fresh d_cfg)))"
    by simp
  with c b h show ?thesis by simp
qed

text \<open>
  Claim C4. For every double in \<open>[0, 1)\<close> the gain lies in \<open>[15, 25]\<close>. Each gain
  \<open>k\<close> is drawn only for doubles between \<open>(k - 15) / 11 - 1 / 2 ^ 53\<close> and
  \<open>(k - 14) / 11\<close>, and for every double from \<open>(k - 15) / 11\<close> up to
  \<open>(k - 14) / 11 - 1 / 2 ^ 53\<close>: eleven intervals of the same length up to the rounding
  of the product (the double just below \<open>3 / 11\<close> already draws 18, the one just below
  \<open>6 / 11\<close> draws 21). The threshold is \<open>5 * level\<^sup>2 + 50 * level + 100\<close>; the loop
  subtracts it and increments the level while the xp reaches it; a qualifying message
  stores the result of the loop run on the stored xp plus the gain. Five qualifying
  messages of 20 XP each, from level 0 and xp 0, leave xp 80 at level 0 after the
  fourth and xp 0 at level 1 after the fifth.
\<close>

theorem C4_gain_and_level_rollover:
  "(is_random r \<longrightarrow> 15 \<le> gain_of r \<and> gain_of r \<le> 25) \<and>
   (is_random r \<and> gain_of r = k \<longrightarrow>
      (real_of_int k - 15) / 11 - 1 / 2 ^ 53 \<le> value_of r \<and>
      value_of r < (real_of_int k - 14) / 11) \<and>
   (is_random r \<and> (real_of_int k - 15) / 11 \<le> value_of r \<and>
    value_of r < (real_of_int k - 14) / 11 - 1 / 2 ^ 53 \<longrightarrow> gain_of r = k) \<and>
   gain_of (1228254443828317, 52) = 18 \<and> value_of (1228254443828317, 52) < 3 / 11 \<and>
   gain_of (1228254443828317, 51) = 21 \<and> value_of (1228254443828317, 51) < 6 / 11 \<and>
   xpForNext l = 5 * l\<^sup>2 + 50 * l + 100 \<and>
   levelUp x l b =
     (if x \<ge> xpForNext l then levelUp (x - xpForNext l) (l + 1) True else (x, l, b)) \<and>
   (message_guild m = Some g \<and> \<not> author_bot m \<and>
    \<not> automod_blocks (message_content m) (joinedTimestamp (message_member m)) nowA
         (can_ManageMessages (message_member m)) \<and>
    sql_getCfg (store w) (guild_id g) = Some c \<and> leveling_enabled c = 1 \<and>
    \<not> nowL - last_xp_ts (user_or_default (store w) (guild_id g) (author_id m)) < cooldownMs
    \<longrightarrow>
      (case levelUp (xp (user_or_default (store w) (guild_id g) (author_id m)) + gain_of random)
              (level (user_or_default (store w) (guild_id g) (author_id m))) False of
         (x', l', b') \<Rightarrow>
           users (store (messageCreate rejects random nowA nowL m w)) (guild_id g, author_id m)
             = Some \<lparr>xp = x', level = l', last_xp_ts = nowL\<rparr>)) \<and>
   (gain_of r = 20 \<longrightarrow>
      users (store (four_messages r)) (''g1'', ''u1'')
        = Some \<lparr>xp = 80, level = 0, last_xp_ts = 240000\<rparr> \<and>
      users (store (five_messages r)) (''g1'', ''u1'')
        = Some \<lparr>xp = 0, level = 1, last_xp_ts = 300000\<rparr>)"
proof (intro conjI impI)
  show "15 \<le> gain_of r" "gain_of r \<le> 25" if "is_random r"
    using that gain_of_range[of r] by simp_all
  show "(real_of_int k - 15) / 11 - 1 / 2 ^ 53 \<le> value_of r"
    "value_of r < (real_of_int k - 14) / 11" if "is_random r \<and> gain_of r = k"
    using that gain_of_interval_fwd[of "fst r" "snd r"] by auto
  show "gain_of r = k"
    if "is_random r \<and> (real_of_int k - 15) / 11 \<le> value_of r \<and>
        value_of r < (real_of_int k - 14) / 11 - 1 / 2 ^ 53"
    using that gain_of_interval_bwd[of "fst r" "snd r" k] by simp
  show "gain_of (1228254443828317, 52) = 18" "value_of (1228254443828317, 52) < 3 / 11"
    "gain_of (1228254443828317, 51) = 21" "value_of (1228254443828317, 51) < 6 / 11"
    using gain_of_rounds_up by blast+
  show "xpForNext l = 5 * l\<^sup>2 + 50 * l + 100"
    by (simp add: xpForNext_def power2_eq_square)
  show "levelUp x l b =
     (if x \<ge> xpForNext l then levelUp (x - xpForNext l) (l + 1) True else (x, l, b))"
    by (rule levelUp.simps)
  show "users (store (four_messages r)) (''g1'', ''u1'')
        = Some \<lparr>xp = 80, level = 0, last_xp_ts = 240000\<rparr>" if "gain_of r = 20"
    using that by (rule four_messages_20(2))
  show "users (store (five_messages r)) (''g1'', ''u1'')
        = Some \<lparr>xp = 0, level = 1, last_xp_ts = 300000\<rparr>" if "gain_of r = 20"
    using that by (rule five_messages_20)
next
  let ?rec = "user_or_default (store w) (guild_id g) (author_id m)"
  assume a: "message_guild m = Some g \<and> \<not> author_bot m \<and>
    \<not> automod_blocks (message_content m) (joinedTimestamp (message_member m)) nowA
         (can_ManageMessages (message_member m)) \<and>
    sql_getCfg (store w) (guild_id g) = Some c \<and> leveling_enabled c = 1 \<and>
    \<not> nowL - last_xp_ts ?rec < cooldownMs"
  obtain x' l' b' where lu: "levelUp (xp ?rec + gain_of random) (level ?rec) False = (x', l', b')"
    by (metis prod_cases3)
  from a have mc: "messageCreate rejects random nowA nowL m w = leveling random nowL g m w"
    by (simp add: messageCreate_levels)
  from a have "users (store (leveling random nowL g m w)) =
           (users (store w))((guild_id g, author_id m) \<mapsto> \<lparr>xp = x', level = l', last_xp_ts = nowL\<rparr>)"
    using leveling_gain_effect(1)[OF _ _ _ lu] by blast
  then show "case levelUp (xp ?rec + gain_of random) (level ?rec) False of
         (x', l', b') \<Rightarrow>
           users (store (messageCreate rejects random nowA nowL m w)) (guild_id g, author_id m)
             = Some \<lparr>xp = x', level = l', last_xp_ts = nowL\<rparr>"
    unfolding mc lu by simp
qed

text \<open>
  The theorem of C4 at the double one half, which lies inside the interval of the gain
  20 and so draws it.
\<close>

theorem C4_witness:
  "is_random (2, 2) \<and> value_of (2, 2) = 1 / 2 \<and> gain_of (2, 2) = 20 \<and>
   15 \<le> gain_of (2, 2) \<and> gain_of (2, 2) \<le> 25 \<and>
   xpForNext 0 = 100 \<and>
   users (store (four_messages (2, 2))) (''g1'', ''u1'')
     = Some \<lparr>xp = 80, level = 0, last_xp_ts = 240000\<rparr> \<and>
   users (store (five_messages (2, 2))) (''g1'', ''u1'')
     = Some \<lparr>xp = 0, level = 1, last_xp_ts = 300000\<rparr>"
proof -
  note T = C4_gain_and_level_rollover[where r = "(2, 2)" and k = 20 and l = 0]
  have r: "is_random (2, 2)" by (simp add: is_random_def)
  have v: "value_of (2, 2) = 1 / 2" by (simp add: value_of_def)
  have "(real_of_int 20 - 15) / 11 \<le> value_of (2, 2)"
    "value_of (2, 2) < (real_of_int 20 - 14) / 11 - 1 / 2 ^ 53"
    by (simp_all add: v)
  with T r have g: "gain_of (2, 2) = 20" by blast
  from T r have "15 \<le> gain_of (2, 2)" "gain_of (2, 2) \<le> 25" by blast+
  moreover from T have "xpForNext 0 = 100" by simp
  moreover from T g have "users (store (four_messages (2, 2))) (''g1'', ''u1'')
     = Some \<lparr>xp = 80, level = 0, last_xp_ts = 240000\<rparr>"
    "users (store (five_messages (2, 2))) (''g1'', ''u1'')
     = Some \<lparr>xp = 0, level = 1, last_xp_ts = 300000\<rparr>" by blast+
  ultimately show ?thesis using r v g by simp
qed

text \<open>
  Claim C5. A progression row (of any member of any guild) that satisfies
  \<open>0 \<le> xp < xpForNext level\<close> before a message is handled, or that does not exist
  yet, satisfies it afterwards, whatever path the handler takes and whatever
  \<^verbatim>\<open>Math.random()\<close> returns.
\<close>

theorem C5_xp_invariant_preserved:
  assumes inv: "\<forall>row. users (store w) k = Some row \<longrightarrow> xp_invariant row"
  shows "\<forall>row. users (store (messageCreate rejects random nowA nowL m w)) k = Some row
           \<longrightarrow> xp_invariant row"
proof (intro allI impI)
  fix row
  from inv have inv': "\<And>row. users (store w) k = Some row \<Longrightarrow> xp_invariant row"
    by blast
  assume after: "users (store (messageCreate rejects random nowA nowL m w)) k = Some row"
  show "xp_invariant row"
  proof (cases "message_guild m = None \<or> author_bot m")
    case True
    with after have "users (store w) k = Some row" by (simp add: messageCreate_ignored)
    then show ?thesis by (rule inv')
  next
    case False
    then obtain g where g: "message_guild m = Some g" and nb: "\<not> author_bot m" by auto
    show ?thesis
    proof (cases "automod_blocks (message_content m) (joinedTimestamp (message_member m)) nowA
                    (can_ManageMessages (message_member m))")
      case True
      with after g nb have "users (store w) k = Some row"
        by (simp add: messageCreate_blocked automod_actions_store)
      then show ?thesis by (rule inv')
    next
      case False
      let ?rec = "user_or_default (store w) (guild_id g) (author_id m)"
      from after g nb False have "users (store (leveling random nowL g m w)) k = Some row"
        by (simp add: messageCreate_levels)
      then consider "users (store w) k = Some row"
        | b where "k = (guild_id g, author_id m)"
            "levelUp (xp ?rec + gain_of random) (level ?rec) False = (xp row, level row, b)"
        using leveling_users_cases by blast
      then show ?thesis
      proof cases
        case 1
        then show ?thesis by (rule inv')
      next
        case 2
        have "0 \<le> xp ?rec"
        proof (cases "users (store w) (guild_id g, author_id m)")
          case None
          then show ?thesis by (simp add: user_or_default_def sql_getUser_def)
        next
          case (Some r0)
          with inv'[of r0] 2(1) show ?thesis
            by (simp add: user_or_default_def sql_getUser_def xp_invariant_def)
        qed
        moreover have "15 \<le> gain_of random" by (rule gain_of_lower)
        ultimately have "0 \<le> xp ?rec + gain_of random" by simp
        from levelUp_bounds[OF this 2(2)] show ?thesis by (simp add: xp_invariant_def)
      qed
    qed
  qed
qed

text \<open>The theorem of C5 at a member with 90 XP at level 0, who rolls over to level 1.\<close>

theorem C5_witness:
  "xp_invariant \<lparr>xp = 90, level = 0, last_xp_ts = 0\<rparr> \<and>
   users (store (messageCreate (\<lambda>a. False) (2, 2) 60000 60000 m0 (fresh d_user))) (''g1'', ''u1'')
     = Some \<lparr>xp = 10, level = 1, last_xp_ts = 60000\<rparr> \<and>
   xp_invariant \<lparr>xp = 10, level = 1, last_xp_ts = 60000\<rparr>"
proof -
  have inv: "\<forall>row. users (store (fresh d_user)) (''g1'', ''u1'') = Some row \<longrightarrow> xp_invariant row"
    by (simp add: fresh_def d_user_def xp_invariant_def xpForNext_def)
  have after: "users (store (messageCreate (\<lambda>a. False) (2, 2) 60000 60000 m0 (fresh d_user)))
      (''g1'', ''u1'') = Some \<lparr>xp = 10, level = 1, last_xp_ts = 60000\<rparr>"
    by (rule rollover_example)
  have "xp_invariant \<lparr>xp = 10, level = 1, last_xp_ts = 60000\<rparr>"
    using C5_xp_invariant_preserved[where random = "(2, 2)" and w = "fresh d_user"
        and rejects = "\<lambda>a. False" and nowA = 60000 and nowL = 60000 and m = m0
        and k = "(''g1'', ''u1'')"] inv after
    by simp
  with after show ?thesis by (simp add: xp_invariant_def xpForNext_def)
qed

text \<open>
  Claim C6. The claim: a candidate role the bot may not manage is left out of the
  add action and cannot make the interaction fail. The handler filters the roles it
  removes by \<^verbatim>\<open>editable\<close> and passes \<^verbatim>\<open>selected\<close> to \<^verbatim>\<open>member.roles.add\<close>
  unfiltered: with candidates \<open>A\<close> (manageable) and \<open>B\<close> (not), a member holding
  \<open>A\<close> who selects \<open>B\<close> has \<open>B\<close> passed to the add action; when the gateway
  rejects that add, the member has lost \<open>A\<close> and the interaction is answered with the
  failure notice.
\<close>

theorem C6_unmanageable_role_reaches_add:
  "roles_cache (menu_guild menu_AB) ''B'' = Some False \<and>
   issued (snd (roleMenuSelect (\<lambda>a. False) menu_AB [''A''] (fresh d_empty)))
     = [MembersFetch ''u1'', RolesRemove ''u1'' [''A''], RolesAdd ''u1'' [''B''], Reply RolesUpdated] \<and>
   roleMenuSelect (\<lambda>a. a = RolesAdd ''u1'' [''B'']) menu_AB [''A''] (fresh d_empty)
     = ([], (fresh d_empty)\<lparr>issued := [MembersFetch ''u1'', RolesRemove ''u1'' [''A''],
                                         RolesAdd ''u1'' [''B''], Reply SomethingWentWrong]\<rparr>)"
  by (simp add: menu_defs menu_AB_def g0_def fresh_def)

text \<open>
  Claim C7. When every candidate role is manageable, the selection is a subset of the
  candidates and the gateway accepts the actions, the roles the member holds afterwards,
  restricted to the candidates, are exactly the selection; the roles held outside the
  candidates are unchanged; and the remove action is issued before the add action.
\<close>

theorem C7_role_menu_converges:
  assumes "startsWith (customId i) ''role_menu:''"
    and "\<forall>r \<in> set (component_options i). roles_cache (menu_guild i) r = Some True"
    and "set (selected_values i) \<subseteq> set (component_options i)"
    and "\<forall>a. \<not> rejects a"
  shows "case roleMenuSelect rejects i held w of
           (held', w') \<Rightarrow>
             set held' \<inter> set (component_options i) = set (selected_values i) \<and>
             set held' - set (component_options i) = set held - set (component_options i) \<and>
             issued w' = issued w @
               [MembersFetch (user_id i),
                RolesRemove (user_id i) (filter (\<lambda>r. r \<in> set (component_options i)) held),
                RolesAdd (user_id i) (selected_values i),
                Reply RolesUpdated]"
proof -
  have m: "filter (\<lambda>rid. roles_cache (menu_guild i) rid = Some True) (component_options i)
           = component_options i"
    using assms(2) by (simp add: filter_id_conv)
  show ?thesis
    unfolding roleMenuSelect_accepted[OF assms(1,4)] Let_def m
    using assms(3) by auto
qed

text \<open>
  The theorem of C7 at candidates \<open>A\<close>, \<open>B\<close>, \<open>C\<close>, a member holding \<open>A\<close>,
  \<open>B\<close> and an unrelated role \<open>X\<close>, and the selection \<open>B\<close>, \<open>C\<close>.
\<close>

theorem C7_witness:
  "startsWith (customId menu_ABC) ''role_menu:'' \<and>
   roles_cache (menu_guild menu_ABC) ''A'' = Some True \<and>
   roles_cache (menu_guild menu_ABC) ''B'' = Some True \<and>
   roles_cache (menu_guild menu_ABC) ''C'' = Some True \<and>
   fst (roleMenuSelect (\<lambda>a. False) menu_ABC [''A'', ''B'', ''X''] (fresh d_empty)) = [''X'', ''B'', ''C''] \<and>
   set (fst (roleMenuSelect (\<lambda>a. False) menu_ABC [''A'', ''B'', ''X''] (fresh d_empty)))
     \<inter> {''A'', ''B'', ''C''} = {''B'', ''C''} \<and>
   issued (snd (roleMenuSelect (\<lambda>a. False) menu_ABC [''A'', ''B'', ''X''] (fresh d_empty)))
     = [MembersFetch ''u1'', RolesRemove ''u1'' [''A'', ''B''], RolesAdd ''u1'' [''B'', ''C''],
        Reply RolesUpdated]"
proof -
  have h1: "startsWith (customId menu_ABC) ''role_menu:''" by (simp add: menu_ABC_def)
  have h2: "\<forall>r \<in> set (component_options menu_ABC). roles_cache (menu_guild menu_ABC) r = Some True"
    by (simp add: menu_ABC_def g_abc_def)
  have h3: "set (selected_values menu_ABC) \<subseteq> set (component_options menu_ABC)"
    by (simp add: menu_ABC_def)
  have h4: "\<forall>a. \<not> (\<lambda>a. False) a" by simp
  have v: "fst (roleMenuSelect (\<lambda>a. False) menu_ABC [''A'', ''B'', ''X''] (fresh d_empty))
           = [''X'', ''B'', ''C'']"
    by (simp add: menu_defs menu_ABC_def g_abc_def)
  note T = C7_role_menu_converges[OF h1 h2 h3 h4, where held = "[''A'', ''B'', ''X'']"
      and w = "fresh d_empty"]
  from T have "set (fst (roleMenuSelect (\<lambda>a. False) menu_ABC [''A'', ''B'', ''X''] (fresh d_empty)))
     \<inter> {''A'', ''B'', ''C''} = {''B'', ''C''}"
    and "issued (snd (roleMenuSelect (\<lambda>a. False) menu_ABC [''A'', ''B'', ''X''] (fresh d_empty)))
     = [MembersFetch ''u1'', RolesRemove ''u1'' [''A'', ''B''], RolesAdd ''u1'' [''B'', ''C''],
        Reply RolesUpdated]"
    by (simp_all add: menu_ABC_def fresh_def split: prod.splits)
  with v h1 h2 show ?thesis by (simp add: menu_ABC_def)
qed

text \<open>
  Claim C8, as the code has it. Running the same configuration command twice leaves
  the tables as running it once does. Running a command and then a command on other
  fields leaves a row that holds the values of the second, and the values of the first
  as \<^verbatim>\<open>|| null\<close> reads them: every non-empty identifier and text and the leveling
  flag as they were set, an empty string as \<^verbatim>\<open>NULL\<close>. So for a first command whose
  identifiers and text are non-empty the row holds the values of both.
\<close>

theorem C8_config_merge_idempotent_and_non_clobbering:
  "store (handleCommand rejects g c (handleCommand rejects g c w))
     = store (handleCommand rejects g c w) \<and>
   (\<not> same_field a b \<longrightarrow>
      (case sql_getCfg (store (handleCommand rejects g b (handleCommand rejects g a w))) g of
         None \<Rightarrow> False
       | Some row \<Rightarrow> command_kept a row \<and> command_holds b row)) \<and>
   (\<not> same_field a b \<and> nonempty_args a \<longrightarrow>
      (case sql_getCfg (store (handleCommand rejects g b (handleCommand rejects g a w))) g of
         None \<Rightarrow> False
       | Some row \<Rightarrow> command_holds a row \<and> command_holds b row))"
proof (intro conjI impI)
  show "store (handleCommand rejects g c (handleCommand rejects g c w))
     = store (handleCommand rejects g c w)"
    by (rule handleCommand_idem)
next
  assume "\<not> same_field a b"
  then obtain row where
    "sql_getCfg (store (handleCommand rejects g b (handleCommand rejects g a w))) g = Some row"
    "command_kept a row" "command_holds b row"
    using handleCommand_kept[of a b rejects g w] by blast
  then show "case sql_getCfg (store (handleCommand rejects g b (handleCommand rejects g a w))) g of
         None \<Rightarrow> False
       | Some row \<Rightarrow> command_kept a row \<and> command_holds b row"
    by simp
next
  assume "\<not> same_field a b \<and> nonempty_args a"
  then obtain row where
    "sql_getCfg (store (handleCommand rejects g b (handleCommand rejects g a w))) g = Some row"
    "command_holds a row" "command_holds b row"
    using handleCommand_both[of a b rejects g w] by blast
  then show "case sql_getCfg (store (handleCommand rejects g b (handleCommand rejects g a w))) g of
         None \<Rightarrow> False
       | Some row \<Rightarrow> command_holds a row \<and> command_holds b row"
    by simp
qed

text \<open>
  The claim C8 as stated asks that the first command's value is still set after the
  second, for every two commands on distinct fields. A welcome text set to the empty
  string is stored as such, and the next command on another field, here the log
  channel, writes it back as \<^verbatim>\<open>NULL\<close>.
\<close>

theorem C8_empty_text_counterexample:
  "\<not> same_field (SetWelcome ''general'' []) (SetLog ''log'') \<and>
   sql_getCfg (store (handleCommand (\<lambda>a. False) ''g1'' (SetWelcome ''general'' []) (fresh d_empty)))
       ''g1''
     = Some \<lparr>welcome_channel_id = Some ''general'', welcome_message = Some [],
              autorole_id = None, leveling_enabled = 1, log_channel_id = None\<rparr> \<and>
   sql_getCfg (store (handleCommand (\<lambda>a. False) ''g1'' (SetLog ''log'')
       (handleCommand (\<lambda>a. False) ''g1'' (SetWelcome ''general'' []) (fresh d_empty)))) ''g1''
     = Some \<lparr>welcome_channel_id = Some ''general'', welcome_message = None,
              autorole_id = None, leveling_enabled = 1, log_channel_id = Some ''log''\<rparr> \<and>
   \<not> command_holds (SetWelcome ''general'' [])
       \<lparr>welcome_channel_id = Some ''general'', welcome_message = None,
        autorole_id = None, leveling_enabled = 1, log_channel_id = Some ''log''\<rparr>"
  by (simp add: cmd_defs fresh_def d_empty_def)

text \<open>
  The theorem of C8 at a guild with a full row: leveling switched off, then the log
  channel set, leaves leveling off and every other field as it was; and at the
  autorole set twice on the empty tables.
\<close>

theorem C8_witness:
  "\<not> same_field (ToggleLeveling False) (SetLog ''log'') \<and> nonempty_args (ToggleLeveling False) \<and>
   sql_getCfg (store (handleCommand (\<lambda>a. False) ''g1'' (SetLog ''log'')
       (handleCommand (\<lambda>a. False) ''g1'' (ToggleLeveling False) (fresh d_full)))) ''g1''
     = Some \<lparr>welcome_channel_id = Some ''general'', welcome_message = None,
              autorole_id = Some ''A'', leveling_enabled = 0, log_channel_id = Some ''log''\<rparr> \<and>
   command_holds (ToggleLeveling False)
     \<lparr>welcome_channel_id = Some ''general'', welcome_message = None,
      autorole_id = Some ''A'', leveling_enabled = 0, log_channel_id = Some ''log''\<rparr> \<and>
   command_holds (SetLog ''log'')
     \<lparr>welcome_channel_id = Some ''general'', welcome_message = None,
      autorole_id = Some ''A'', leveling_enabled = 0, log_channel_id = Some ''log''\<rparr> \<and>
   store (handleCommand (\<lambda>a. False) ''g1'' (SetAutorole ''B'')
       (handleCommand (\<lambda>a. False) ''g1'' (SetAutorole ''B'') (fresh d_empty)))
     = store (handleCommand (\<lambda>a. False) ''g1'' (SetAutorole ''B'') (fresh d_empty))"
proof -
  note T = C8_config_merge_idempotent_and_non_clobbering[where a = "ToggleLeveling False"
      and b = "SetLog ''log''" and c = "SetAutorole ''B''" and g = "''g1''"
      and rejects = "\<lambda>a. False"]
  have h: "\<not> same_field (ToggleLeveling False) (SetLog ''log'')" "nonempty_args (ToggleLeveling False)"
    by simp_all
  have v: "sql_getCfg (store (handleCommand (\<lambda>a. False) ''g1'' (SetLog ''log'')
       (handleCommand (\<lambda>a. False) ''g1'' (ToggleLeveling False) (fresh d_full)))) ''g1''
     = Some \<lparr>welcome_channel_id = Some ''general'', welcome_message = None,
              autorole_id = Some ''A'', leveling_enabled = 0, log_channel_id = Some ''log''\<rparr>"
    by (simp add: cmd_defs fresh_def d_full_def cfg_full_def)
  from T[where w = "fresh d_full"] h v have
    "command_holds (ToggleLeveling False)
       \<lparr>welcome_channel_id = Some ''general'', welcome_message = None,
        autorole_id = Some ''A'', leveling_enabled = 0, log_channel_id = Some ''log''\<rparr> \<and>
     command_holds (SetLog ''log'')
       \<lparr>welcome_channel_id = Some ''general'', welcome_message = None,
        autorole_id = Some ''A'', leveling_enabled = 0, log_channel_id = Some ''log''\<rparr>"
    by simp
  moreover from T[where w = "fresh d_empty"] have
    "store (handleCommand (\<lambda>a. False) ''g1'' (SetAutorole ''B'')
       (handleCommand (\<lambda>a. False) ''g1'' (SetAutorole ''B'') (fresh d_empty)))
     = store (handleCommand (\<lambda>a. False) ''g1'' (SetAutorole ''B'') (fresh d_empty))"
    by blast
  ultimately show ?thesis using h v by simp
qed

text \<open>
  Claim C9. The claim: a rejection of any outbound action of the join handler or of
  the automod branch is swallowed where the action is called. The role assignment, the
  welcome message, the message deletion and the warning are called with
  \<^verbatim>\<open>.catch(() => {})\<close>; the audit line \<^verbatim>\<open>log.send(...)\<close> is called with no handler in
  both places. When the gateway rejects every action, the rejection of the audit line,
  and only that one, is left unhandled, in the join handler and in the automod branch.
\<close>

theorem C9_audit_send_rejection_escapes:
  "issued (guildMemberAdd (\<lambda>a. True) g_abc mem0 (fresh d_full))
     = [RolesAdd ''u1'' [''A''],
        ChannelSend ''general'' (WelcomeText ''Welcome {user} to {server}!'' ''u1'' ''Guild''),
        ChannelSend ''log'' (JoinLog ''user#0001'')] \<and>
   unhandled (guildMemberAdd (\<lambda>a. True) g_abc mem0 (fresh d_full))
     = [ChannelSend ''log'' (JoinLog ''user#0001'')] \<and>
   unhandled (guildMemberAdd (\<lambda>a. a = ChannelSend ''log'' (JoinLog ''user#0001'')) g_abc mem0
       (fresh d_full))
     = [ChannelSend ''log'' (JoinLog ''user#0001'')] \<and>
   issued (messageCreate (\<lambda>a. True) (2, 2) 1000 1000 m_invite (fresh d_full))
     = [MessageDelete ''m1'', ChannelSend ''c1'' (InviteWarning ''u1''),
        ChannelSend ''log'' (InviteLog ''user#0001'' ''c1'')] \<and>
   unhandled (messageCreate (\<lambda>a. True) (2, 2) 1000 1000 m_invite (fresh d_full))
     = [ChannelSend ''log'' (InviteLog ''user#0001'' ''c1'')]"
  by (simp add: eval_defs guildMemberAdd_def g_abc_def cfg_full_def d_full_def m_invite_def)

text \<open>
  Claim C10. A message whose author is a bot, or that has no guild, is ignored: the
  handler returns the world it was given, so it runs no statement, issues no action and
  leaves no rejection behind.
\<close>

theorem C10_bot_or_guildless_message_ignored:
  assumes "message_guild m = None \<or> author_bot m"
  shows "messageCreate rejects random nowA nowL m w = w \<and>
         store (messageCreate rejects random nowA nowL m w) = store w \<and>
         stmts (messageCreate rejects random nowA nowL m w) = stmts w \<and>
         issued (messageCreate rejects random nowA nowL m w) = issued w \<and>
         unhandled (messageCreate rejects random nowA nowL m w) = unhandled w"
  using assms by (simp add: messageCreate_ignored)

text \<open>
  The theorem of C10 at a bot's message that carries an invite link, and at a message
  with no guild.
\<close>

theorem C10_witness:
  "author_bot (m0\<lparr>author_bot := True, message_content := ''discord.gg/abc''\<rparr>) \<and>
   messageCreate (\<lambda>a. False) (2, 2) 1000 1000
     (m0\<lparr>author_bot := True, message_content := ''discord.gg/abc''\<rparr>) (fresh d_cfg) = fresh d_cfg \<and>
   message_guild (m0\<lparr>message_guild := None\<rparr>) = None \<and>
   stmts (messageCreate (\<lambda>a. False) (2, 2) 1000 1000 (m0\<lparr>message_guild := None\<rparr>) (fresh d_cfg)) = []"
  using C10_bot_or_guildless_message_ignored[of "m0\<lparr>author_bot := True, message_content := ''discord.gg/abc''\<rparr>" "\<lambda>a. False" "(2, 2)" 1000 1000 "fresh d_cfg"]
    C10_bot_or_guildless_message_ignored[of "m0\<lparr>message_guild := None\<rparr>" "\<lambda>a. False" "(2, 2)" 1000 1000 "fresh d_cfg"]
  by (simp add: fresh_def)

end
